(* ===== verification/Genz_Prelude.thy ===== *)
theory Genz_Prelude
  imports
    "HOL-Library.Word"
    "HOL-Library.Signed_Division"
    "HOL-Library.Multiset"
    "HOL-Library.Monad_Syntax"
begin

text \<open>
  The vocabulary the component theories share: the machine integers of the C code and its
  conversions, the error numbers, addresses, the ledger of kernel resources, and the generic
  lemmas on options, lists and words that carry the component proofs.

  Conventions.
  \<^item> \<open>uint16_t\<close>, \<open>uint32_t\<close>, \<open>uint64_t\<close> (and \<open>size_t\<close>, \<open>unsigned long\<close>) are words of that
    width; \<open>+\<close>, \<open>-\<close> and \<open>*\<close> wrap around and \<open><\<close> is the unsigned comparison.
  \<^item> \<open>int\<close> and \<open>int32_t\<close> are values of type \<^typ>\<open>int\<close> in the range of 32 bits; every narrowing
    conversion of the source is an explicit \<open>s32\<close>.
  \<^item> A function that can stop the kernel (a NULL or dangling pointer, a write outside an array, a
    \<open>BUG_ON\<close>, a spinlock taken twice, a loop that never ends) returns an option; \<^const>\<open>None\<close> is
    "does not return". Error returns of the C code are values, the negated \<open>errno_num\<close>.
  \<^item> Bytes are values of type \<^typ>\<open>char\<close>; an array of bytes is a list whose length is the array's
    size.
\<close>

named_theorems c_conv \<open>conversions between C integer types\<close>
named_theorems ledger_simps \<open>the effect of the resource ledger's operations\<close>

type_synonym uint16 = "16 word"
type_synonym uint32 = "32 word"
type_synonym uint64 = "64 word"
type_synonym addr = uint64
type_synonym bytes = "char list"

abbreviation NULL :: addr where "NULL \<equiv> 0"
abbreviation NUL :: char where "NUL \<equiv> CHR 0x00"

section \<open>Error numbers\<close>

datatype errno =
    EIO | E2BIG | EBADF | EAGAIN | ENOMEM | EFAULT | EBUSY | ENODEV | EINVAL | ENOTTY | ENOSPC
  | EDOM | ERANGE | EBADSLT | ENODATA | EBADMSG | ENETUNREACH | ETIMEDOUT | EALREADY
  | ERESTARTSYS

fun errno_num :: "errno \<Rightarrow> int" where
  "errno_num EIO = 5"
| "errno_num E2BIG = 7"
| "errno_num EBADF = 9"
| "errno_num EAGAIN = 11"
| "errno_num ENOMEM = 12"
| "errno_num EFAULT = 14"
| "errno_num EBUSY = 16"
| "errno_num ENODEV = 19"
| "errno_num EINVAL = 22"
| "errno_num ENOTTY = 25"
| "errno_num ENOSPC = 28"
| "errno_num EDOM = 33"
| "errno_num ERANGE = 34"
| "errno_num EBADSLT = 57"
| "errno_num ENODATA = 61"
| "errno_num EBADMSG = 74"
| "errno_num ENETUNREACH = 101"
| "errno_num ETIMEDOUT = 110"
| "errno_num EALREADY = 114"
| "errno_num ERESTARTSYS = 512"

abbreviation err :: "errno \<Rightarrow> int" where "err e \<equiv> - errno_num e"

lemma errno_num_bounds: "5 \<le> errno_num e" "errno_num e \<le> 512"
  by (cases e; simp)+

lemma err_neg [simp]: "err e < 0" "\<not> 0 \<le> err e" "\<not> 0 < err e" "err e \<noteq> 0"
  using errno_num_bounds(1)[of e] by linarith+

lemma errno_num_inj [simp]: "errno_num e = errno_num e' \<longleftrightarrow> e = e'"
  by (cases e; cases e'; simp)

section \<open>C integer conversions\<close>

text \<open>Conversion of any integer to \<open>int\<close> or \<open>int32_t\<close>: the low 32 bits, read as signed.\<close>

definition s32 :: "int \<Rightarrow> int" where
  "s32 x = signed_take_bit 31 x"

definition int32_range :: "int \<Rightarrow> bool" where
  "int32_range x \<longleftrightarrow> - (2 ^ 31) \<le> x \<and> x < 2 ^ 31"

lemma s32_id [c_conv]: "int32_range x \<Longrightarrow> s32 x = x"
  by (simp add: s32_def int32_range_def signed_take_bit_int_eq_self_iff)

lemma s32_range [simp]: "int32_range (s32 x)"
  unfolding s32_def int32_range_def
  using signed_take_bit_int_greater_eq_minus_exp[of 31 x] signed_take_bit_int_less_exp[of 31 x]
  by simp

lemma s32_nonneg_id [c_conv]: "0 \<le> x \<Longrightarrow> x < 2 ^ 31 \<Longrightarrow> s32 x = x"
  by (rule s32_id) (simp add: int32_range_def)

lemma err_range [simp]: "int32_range (err e)"
  using errno_num_bounds[of e] by (simp add: int32_range_def)

section \<open>The ledger of kernel resources\<close>

text \<open>
  What the driver obtains from the kernel and has to give back. A release of something that is not
  held (a double free, a region that belongs to somebody else) does not stop the model; it is
  recorded in \<open>bad\<close>, so that "no bad release" can be stated and proved.
\<close>

datatype kres =
    Kmem addr \<comment> \<open>kzalloc / kfree\<close>
  | PciEnabled addr \<comment> \<open>pci\_enable\_device / pci\_disable\_device\<close>
  | PciRegions addr \<comment> \<open>pci\_request\_regions / pci\_release\_regions\<close>
  | IoMap addr \<comment> \<open>pci\_iomap / pci\_iounmap\<close>
  | IrqVectors addr \<comment> \<open>pci\_alloc\_irq\_vectors / pci\_free\_irq\_vectors\<close>
  | Irq int \<comment> \<open>request\_irq / free\_irq\<close>
  | ChrdevRegion uint64 uint64 \<comment> \<open>register\_chrdev\_region, by major and minor\<close>
  | Cdev addr \<comment> \<open>cdev\_add / cdev\_del\<close>
  | ClassDev addr \<comment> \<open>device\_create / device\_destroy\<close>
  | SysfsFile addr \<comment> \<open>a binary sysfs file, by the address of its attribute\<close>
  | SysfsDir addr \<comment> \<open>kobject\_create\_and\_add / kobject\_del\<close>
  | BusDevice addr \<comment> \<open>device\_add / device\_del\<close>
  | ClassReg nat \<comment> \<open>class\_register / class\_unregister, by table index\<close>
  | RootDevice \<comment> \<open>root\_device\_register / root\_device\_unregister\<close>
  | BusType \<comment> \<open>bus\_register / bus\_unregister\<close>
  | FabricsKset \<comment> \<open>kset\_create\_and\_add / kset\_unregister\<close>

record ledger =
  held :: "kres list"
  bad :: "kres list"

definition acquire :: "kres \<Rightarrow> ledger \<Rightarrow> ledger" where
  "acquire r L = L\<lparr>held := r # held L\<rparr>"

definition release :: "kres \<Rightarrow> ledger \<Rightarrow> ledger" where
  "release r L =
     (if r \<in> set (held L) then L\<lparr>held := remove1 r (held L)\<rparr> else L\<lparr>bad := r # bad L\<rparr>)"

definition kfree :: "addr \<Rightarrow> ledger \<Rightarrow> ledger" where
  "kfree p L = (if p = NULL then L else release (Kmem p) L)"

text \<open>Two ledgers agree when they hold the same resources and no bad release came between.\<close>

definition balanced :: "ledger \<Rightarrow> ledger \<Rightarrow> bool" where
  "balanced L L' \<longleftrightarrow> mset (held L') = mset (held L) \<and> bad L' = bad L"

abbreviation holds :: "kres \<Rightarrow> ledger \<Rightarrow> bool" where
  "holds r L \<equiv> r \<in># mset (held L)"

lemma held_acquire [ledger_simps]: "mset (held (acquire r L)) = add_mset r (mset (held L))"
  by (simp add: acquire_def)

lemma bad_acquire [ledger_simps]: "bad (acquire r L) = bad L"
  by (simp add: acquire_def)

lemma held_release [ledger_simps]: "mset (held (release r L)) = mset (held L) - {#r#}"
  by (simp add: release_def diff_single_trivial)

lemma bad_release [ledger_simps]:
  "bad (release r L) = (if holds r L then bad L else r # bad L)"
  by (simp add: release_def)

lemma kfree_NULL [ledger_simps]: "kfree NULL L = L"
  by (simp add: kfree_def)

lemma kfree_nonnull [ledger_simps]: "p \<noteq> NULL \<Longrightarrow> kfree p L = release (Kmem p) L"
  by (simp add: kfree_def)

lemma balanced_refl [simp]: "balanced L L"
  by (simp add: balanced_def)

lemma balanced_trans: "balanced L L' \<Longrightarrow> balanced L' L'' \<Longrightarrow> balanced L L''"
  by (simp add: balanced_def)

lemma release_acquire_balanced: "balanced L (release r (acquire r L))"
  by (simp add: balanced_def ledger_simps)

text \<open>
  The state every component works on starts with the ledger; each component's record extends the
  one of the component it is built on.
\<close>

record kernel =
  led :: ledger

abbreviation k_acquire :: "kres \<Rightarrow> 'a kernel_scheme \<Rightarrow> 'a kernel_scheme" where
  "k_acquire r s \<equiv> s\<lparr>led := acquire r (led s)\<rparr>"

abbreviation k_release :: "kres \<Rightarrow> 'a kernel_scheme \<Rightarrow> 'a kernel_scheme" where
  "k_release r s \<equiv> s\<lparr>led := release r (led s)\<rparr>"

abbreviation k_kfree :: "addr \<Rightarrow> 'a kernel_scheme \<Rightarrow> 'a kernel_scheme" where
  "k_kfree p s \<equiv> s\<lparr>led := kfree p (led s)\<rparr>"

text \<open>The steps that touch nothing but the ledger.\<close>

definition led_only :: "'a kernel_scheme \<Rightarrow> 'a kernel_scheme \<Rightarrow> bool" where
  "led_only s s' \<longleftrightarrow> s' = s\<lparr>led := led s'\<rparr>"

lemma led_only_refl [simp]: "led_only s s"
  by (simp add: led_only_def)

lemma led_only_upd [simp]: "led_only s (s\<lparr>led := l\<rparr>)"
  by (simp add: led_only_def)

lemma led_only_trans [trans]: "led_only s t \<Longrightarrow> led_only t u \<Longrightarrow> led_only s u"
  unfolding led_only_def by (metis kernel.update_convs(1) kernel.surjective)

lemma led_onlyE: "led_only s s' \<Longrightarrow> (\<And>l. s' = s\<lparr>led := l\<rparr> \<Longrightarrow> P) \<Longrightarrow> P"
  unfolding led_only_def by metis

section \<open>Options, lists and words\<close>

lemma bind_eq_Some [simp]:
  "Option.bind m f = Some y \<longleftrightarrow> (\<exists>x. m = Some x \<and> f x = Some y)"
  by (cases m) auto

lemma takeWhile_stop: "\<forall>x \<in> set xs. P x \<Longrightarrow> \<not> P y \<Longrightarrow> takeWhile P (xs @ y # ys) = xs"
  by (simp add: takeWhile_tail)

lemma word_offset_cancel [simp]: "(g + x) - g = (x :: 'a::len word)"
  by simp

lemma word_of_int_mono:
  assumes "0 \<le> x" "x \<le> y" "y < 2 ^ LENGTH('a)"
  shows "(word_of_int x :: 'a::len word) \<le> word_of_int y"
  using assms by (simp add: word_le_def uint_word_of_int mod_pos_pos_trivial)

lemma take_bit_unat_wide:
  assumes "LENGTH('a::len) \<le> n"
  shows "take_bit n (unat (x :: 'a word)) = unat x"
proof -
  have "unat x < 2 ^ LENGTH('a)" by (rule unsigned_less)
  also have "(2::nat) ^ LENGTH('a) \<le> 2 ^ n" using assms by simp
  finally show ?thesis by (simp add: take_bit_nat_eq_self_iff)
qed

lemma unat_ucast_32_64 [c_conv]: "unat (ucast (x :: uint32) :: uint64) = unat x"
  by (simp add: unsigned_ucast_eq take_bit_unat_wide)

lemma unat_ucast_16_64 [c_conv]: "unat (ucast (x :: uint16) :: uint64) = unat x"
  by (simp add: unsigned_ucast_eq take_bit_unat_wide)

lemma unat_ucast_16_32 [c_conv]: "unat (ucast (x :: uint16) :: uint32) = unat x"
  by (simp add: unsigned_ucast_eq take_bit_unat_wide)

end
