(* ===== verification/Genz_Class.thy ===== *)
theory Genz_Class
  imports Genz_Prelude
begin

text \<open>
  Component classes: \<open>subsystem/genz_class.h\<close> (the encodings of Gen-Z 1.0, Appendix C),
  \<open>subsystem/genz_class.c\<close> (the table of kernel classes, its lookup, registration and removal) and
  the table of class names of \<open>subsystem/genz_device.c\<close>. The lemmas show that the three tables
  agree on every encoding and that registration is all or nothing.
\<close>

section \<open>Encodings and tables\<close>

datatype genz_cce =
    RESERVED_SHALL_NOT_BE_USED | MEMORY_P2P_CORE | MEMORY_EXPLICIT_OPCLASS | INTEGRATED_SWITCH
  | ENC_EXP_SWITCH | FABRIC_SWITCH | PROCESSOR | PROCESSOR_NB | ACCELERATOR_NB_NC
  | ACCELERATOR_NB | ACCELERATOR_NC | ACCELERATOR | IO_NB_NC | IO_NB | IO_NC | IO
  | BLOCK_STORAGE | BLOCK_STORAGE_NB | TRANSPARENT_ROUTER | MULTI_CLASS | DISCRETE_BRIDGE
  | INTEGRATED_BRIDGE | COMPLIANCE_TEST_BOARD | LPH | TOO_BIG

text \<open>The enumerators in declaration order; the gaps of the C enum (\<open>= 0x8\<close>, \<open>= 0x10\<close>,
  \<open>= 0x17\<close>) are the values the position gives anyway.\<close>

definition cce_list :: "genz_cce list" where
  "cce_list =
     [RESERVED_SHALL_NOT_BE_USED, MEMORY_P2P_CORE, MEMORY_EXPLICIT_OPCLASS, INTEGRATED_SWITCH,
      ENC_EXP_SWITCH, FABRIC_SWITCH, PROCESSOR, PROCESSOR_NB, ACCELERATOR_NB_NC, ACCELERATOR_NB,
      ACCELERATOR_NC, ACCELERATOR, IO_NB_NC, IO_NB, IO_NC, IO, BLOCK_STORAGE, BLOCK_STORAGE_NB,
      TRANSPARENT_ROUTER, MULTI_CLASS, DISCRETE_BRIDGE, INTEGRATED_BRIDGE,
      COMPLIANCE_TEST_BOARD, LPH, TOO_BIG]"

fun cce_num :: "genz_cce \<Rightarrow> uint32" where
  "cce_num RESERVED_SHALL_NOT_BE_USED = 0x0"
| "cce_num MEMORY_P2P_CORE = 0x1"
| "cce_num MEMORY_EXPLICIT_OPCLASS = 0x2"
| "cce_num INTEGRATED_SWITCH = 0x3"
| "cce_num ENC_EXP_SWITCH = 0x4"
| "cce_num FABRIC_SWITCH = 0x5"
| "cce_num PROCESSOR = 0x6"
| "cce_num PROCESSOR_NB = 0x7"
| "cce_num ACCELERATOR_NB_NC = 0x8"
| "cce_num ACCELERATOR_NB = 0x9"
| "cce_num ACCELERATOR_NC = 0xA"
| "cce_num ACCELERATOR = 0xB"
| "cce_num IO_NB_NC = 0xC"
| "cce_num IO_NB = 0xD"
| "cce_num IO_NC = 0xE"
| "cce_num IO = 0xF"
| "cce_num BLOCK_STORAGE = 0x10"
| "cce_num BLOCK_STORAGE_NB = 0x11"
| "cce_num TRANSPARENT_ROUTER = 0x12"
| "cce_num MULTI_CLASS = 0x13"
| "cce_num DISCRETE_BRIDGE = 0x14"
| "cce_num INTEGRATED_BRIDGE = 0x15"
| "cce_num COMPLIANCE_TEST_BOARD = 0x16"
| "cce_num LPH = 0x17"
| "cce_num TOO_BIG = 0x18"

text \<open>\<open>genz_component_class_str\<close> of \<open>genz_device.c\<close>; \<^const>\<open>None\<close> is the NULL at its end.\<close>

definition genz_component_class_str :: "string option list" where
  "genz_component_class_str =
     map Some
       [''BAD HACKER. BAD!'', ''MemoryP2PCore'', ''MemoryExplicitOpClass'', ''IntegratedSwitch'',
        ''EnclosureExpansionSwitch'', ''FabricSwitch'', ''Processor'', ''Processor_NB'',
        ''Accelerator_NB_NC'', ''Accelerator_NB'', ''Accelerator_NC'', ''Accelerator'',
        ''IO_NB_NC'', ''IO_NB'', ''IO_NC'', ''IO'', ''BlockStorage'', ''BlockStorage_NB'',
        ''TransparentRouter'', ''MultiClass'', ''DiscreteBridge'', ''IntegratedBridge'',
        ''ComplianceTestBoard'', ''LPH''] @ [None]"

text \<open>\<open>genz_classes\<close> of \<open>genz_class.c\<close>, by class name; \<^const>\<open>None\<close> is the sentinel.\<close>

definition genz_classes :: "string option list" where
  "genz_classes =
     map Some
       [''genz_fabric'', ''genz_memory_p2p'', ''genz_memory_explicit'', ''genz_switch_integrated'',
        ''genz_switch_enclosure'', ''genz_switch_fabric'', ''genz_processor'',
        ''genz_processor_nb'', ''genz_accelerator_nb_nc'', ''genz_accelerator_nb'',
        ''genz_accelerator_nc'', ''genz_accelerator'', ''genz_io_nb_nc'', ''genz_io_nb'',
        ''genz_io_nc'', ''genz_io'', ''genz_block'', ''genz_block_nb'', ''genz_tr'',
        ''genz_multiclass'', ''genz_bridge_discrete'', ''genz_bridge_integrated'',
        ''genz_test_board'', ''genz_lph''] @ [None]"

definition maxindex :: uint32 where
  "maxindex = of_nat (length genz_classes) - 2"

text \<open>A pointer into the class table is the index of its element.\<close>

definition genz_class_getter :: "uint32 \<Rightarrow> nat option" where
  "genz_class_getter index = (if index \<noteq> 0 \<and> index \<le> maxindex then Some (unat index) else None)"

section \<open>Registration\<close>

text \<open>
  \<open>class_register\<close> belongs to the kernel; its result for each table index is a parameter. The loop
  runs while \<open>!i\<close>, so for the one index 0; \<open>i & 0\<close> is 0, so the reparenting block never runs.
  The result is the error, the index at which the loop stopped and the state.
\<close>

function classes_init_loop ::
  "(nat \<Rightarrow> int) \<Rightarrow> nat \<Rightarrow> 'a kernel_scheme \<Rightarrow> int \<times> nat \<times> 'a kernel_scheme" where
  "classes_init_loop class_register i s =
     (if i = 0
      then (let ret = class_register i in
            if ret \<noteq> 0 then (ret, i, s)
            else classes_init_loop class_register (i + 1) (k_acquire (ClassReg i) s))
      else (0, i, s))"
  by pat_completeness auto
termination
  by (relation "measure (\<lambda>(r, i, s). 1 - i)") auto

declare classes_init_loop.simps [simp del]

text \<open>\<open>while (--i >= 0) class_unregister (&genz_classes[i])\<close>\<close>

fun classes_unregister_below :: "nat \<Rightarrow> 'a kernel_scheme \<Rightarrow> 'a kernel_scheme" where
  "classes_unregister_below 0 s = s"
| "classes_unregister_below (Suc i) s = classes_unregister_below i (k_release (ClassReg i) s)"

definition genz_classes_init ::
  "(nat \<Rightarrow> int) \<Rightarrow> 'a kernel_scheme \<Rightarrow> int \<times> 'a kernel_scheme" where
  "genz_classes_init class_register s =
     (case classes_init_loop class_register 0 s of (ret, i, s') \<Rightarrow>
        (ret, if ret \<noteq> 0 then classes_unregister_below i s' else s'))"

definition genz_classes_destroy :: "'a kernel_scheme \<Rightarrow> 'a kernel_scheme" where
  "genz_classes_destroy s = k_release (ClassReg 0) s"

section \<open>Lemmas\<close>

lemma cce_num_position: "unat (cce_num c) < length cce_list \<and> cce_list ! unat (cce_num c) = c"
  by (cases c) (simp_all add: cce_list_def)

lemma cce_list_num: "k \<le> 23 \<Longrightarrow> cce_num (cce_list ! k) = of_nat k"
proof -
  have "list_all (\<lambda>k. cce_num (cce_list ! k) = of_nat k) [0..<24]" by code_simp
  then show "k \<le> 23 \<Longrightarrow> cce_num (cce_list ! k) = of_nat k" by (auto simp: list_all_iff)
qed

text \<open>The encodings are ordered by their number, as the C enum is.\<close>

lemma cce_num_inj [simp]: "cce_num c = cce_num d \<longleftrightarrow> c = d"
  using cce_num_position by metis

instantiation genz_cce :: linorder
begin

definition less_eq_genz_cce :: "genz_cce \<Rightarrow> genz_cce \<Rightarrow> bool" where
  "less_eq_genz_cce c d \<longleftrightarrow> cce_num c \<le> cce_num d"

definition less_genz_cce :: "genz_cce \<Rightarrow> genz_cce \<Rightarrow> bool" where
  "less_genz_cce c d \<longleftrightarrow> cce_num c < cce_num d"

instance
  by standard (auto simp: less_eq_genz_cce_def less_genz_cce_def order_less_le)

end

lemma table_lengths: "length genz_classes = 25" "length genz_component_class_str = 25"
  by (simp_all add: genz_classes_def genz_component_class_str_def)

lemma maxindex_value: "maxindex = 0x17"
  by (simp add: maxindex_def table_lengths)

lemma genz_class_getter_Some:
  "genz_class_getter i = Some k \<longleftrightarrow> i \<noteq> 0 \<and> i \<le> 0x17 \<and> k = unat i"
  by (auto simp: genz_class_getter_def maxindex_value)

lemma getter_index_bounds: "genz_class_getter i = Some k \<Longrightarrow> 1 \<le> k \<and> k \<le> 23"
  by (auto simp: genz_class_getter_Some word_le_nat_alt unat_gt_0 Suc_leI)

lemma tables_filled_prefix:
  "list_all (\<lambda>x. x \<noteq> None) (take 24 genz_classes)"
  "list_all (\<lambda>x. x \<noteq> None) (take 24 genz_component_class_str)"
  by (simp_all add: genz_classes_def genz_component_class_str_def)

lemma tables_filled:
  assumes "k \<le> 23"
  shows "genz_classes ! k \<noteq> None" "genz_component_class_str ! k \<noteq> None"
  using assms tables_filled_prefix by (simp_all add: list_all_length table_lengths)

lemma cce_valid_iff:
  "RESERVED_SHALL_NOT_BE_USED < c \<and> c < TOO_BIG \<longleftrightarrow> genz_class_getter (cce_num c) \<noteq> None"
  by (cases c) (simp_all add: less_genz_cce_def genz_class_getter_def maxindex_value)

lemma classes_init_loop_0:
  "classes_init_loop reg 0 s =
     (if reg 0 \<noteq> 0 then (reg 0, 0, s) else (0, 1, k_acquire (ClassReg 0) s))"
  by (simp add: classes_init_loop.simps Let_def)

lemma classes_init_balanced:
  "genz_classes_init reg s = (ret, s') \<Longrightarrow> ret \<noteq> 0 \<Longrightarrow> s' = s"
  by (auto simp: genz_classes_init_def classes_init_loop_0 split: if_splits)

lemma classes_init_ok:
  "genz_classes_init reg s = (0, s') \<longleftrightarrow> reg 0 = 0 \<and> s' = k_acquire (ClassReg 0) s"
  by (auto simp: genz_classes_init_def classes_init_loop_0 split: if_splits)

lemma classes_init_destroy:
  assumes "genz_classes_init reg s = (0, s')"
  shows "balanced (led s) (led (genz_classes_destroy s'))"
  using assms release_acquire_balanced by (auto simp: classes_init_ok genz_classes_destroy_def)

section \<open>Properties\<close>

text \<open>C29: the encodings, the class table and the name table fit each other. The getter answers exactly the encodings
  between the reserved one and \<open>TOO_BIG\<close>, with the entry at the position of the encoding in the enumeration, and both
  tables have a name there, so no reader of them meets the NULL at the end. But a class it hands out is not one
  that a successful \<open>genz_classes_init\<close> registered: that is class 0 alone.\<close>

theorem class_tables_agree:
  "(genz_class_getter i \<noteq> None \<longleftrightarrow> (\<exists>c. RESERVED_SHALL_NOT_BE_USED < c \<and> c < TOO_BIG \<and> cce_num c = i)) \<and>
   (genz_class_getter i = Some k \<longrightarrow>
      cce_num (cce_list ! k) = i \<and> genz_classes ! k \<noteq> None \<and> genz_component_class_str ! k \<noteq> None \<and>
      (genz_classes_init reg s = (0, s') \<longrightarrow> holds (ClassReg k) (led s') = holds (ClassReg k) (led s)))"
proof (intro conjI impI)
  show "genz_class_getter i \<noteq> None \<longleftrightarrow> (\<exists>c. RESERVED_SHALL_NOT_BE_USED < c \<and> c < TOO_BIG \<and> cce_num c = i)"
  proof
    assume "genz_class_getter i \<noteq> None"
    then obtain k where k: "genz_class_getter i = Some k" by blast
    then have "k \<le> 23" using getter_index_bounds by blast
    then have "cce_num (cce_list ! k) = of_nat k" by (rule cce_list_num)
    moreover have "of_nat k = i" using k by (simp add: genz_class_getter_Some)
    ultimately show "\<exists>c. RESERVED_SHALL_NOT_BE_USED < c \<and> c < TOO_BIG \<and> cce_num c = i"
      using k cce_valid_iff[of "cce_list ! k"] by (intro exI[of _ "cce_list ! k"]) simp
  qed (use cce_valid_iff in blast)
next
  assume k: "genz_class_getter i = Some k"
  then have b: "1 \<le> k" "k \<le> 23" "of_nat k = i" using getter_index_bounds by (auto simp: genz_class_getter_Some)
  show "cce_num (cce_list ! k) = i" using cce_list_num[OF b(2)] b(3) by simp
  show "genz_classes ! k \<noteq> None" "genz_component_class_str ! k \<noteq> None" using tables_filled[OF b(2)] .
  assume "genz_classes_init reg s = (0, s')"
  then show "holds (ClassReg k) (led s') = holds (ClassReg k) (led s)"
    using b(1) by (auto simp: classes_init_ok acquire_def)
qed

theorem class_tables_agree_witness:
  "cce_num (cce_list ! 0x14) = 0x14 \<and> genz_classes ! 0x14 \<noteq> None \<and>
   \<not> holds (ClassReg 0x14) (led (snd (genz_classes_init (\<lambda>_. 0) \<lparr>led = \<lparr>held = [], bad = []\<rparr>\<rparr>)))"
proof -
  let ?s = "\<lparr>led = \<lparr>held = [], bad = []\<rparr>\<rparr>"
  have g: "genz_class_getter 0x14 = Some 0x14" by (simp add: genz_class_getter_Some)
  have i: "genz_classes_init (\<lambda>_. 0) ?s = (0, snd (genz_classes_init (\<lambda>_. 0) ?s))"
    by (simp add: genz_classes_init_def classes_init_loop_0)
  have "\<not> holds (ClassReg 0x14) (led ?s)" by simp
  with class_tables_agree[of "0x14" "0x14" "\<lambda>_. 0" ?s "snd (genz_classes_init (\<lambda>_. 0) ?s)"] g i show ?thesis by simp
qed

end
