(* ===== verification/C_String.thy ===== *)
theory C_String
  imports Genz_Prelude
begin

text \<open>
  What the drivers use of the C string library, on byte arrays: NUL-terminated strings, comparison,
  search, bounded copies, formatted output and input. A copy that would write outside its
  destination array is \<^const>\<open>None\<close>. The round trips and the length bounds of formatted numbers
  stand at the end.
\<close>

named_theorems fmt_simps \<open>symbolic evaluation of formatted output and input\<close>

section \<open>Strings in byte arrays\<close>

text \<open>The string that starts at the front of an array: everything before the first NUL.\<close>

definition cstr :: "bytes \<Rightarrow> string" where
  "cstr bs = takeWhile (\<lambda>c. c \<noteq> NUL) bs"

definition terminated :: "bytes \<Rightarrow> bool" where
  "terminated bs \<longleftrightarrow> NUL \<in> set bs"

definition STREQ :: "bytes \<Rightarrow> bytes \<Rightarrow> bool" where
  "STREQ a b \<longleftrightarrow> cstr a = cstr b"

definition STREQ_N :: "bytes \<Rightarrow> bytes \<Rightarrow> nat \<Rightarrow> bool" where
  "STREQ_N a b n \<longleftrightarrow> take n (cstr a) = take n (cstr b)"

fun strchr :: "bytes \<Rightarrow> char \<Rightarrow> nat option" where
  "strchr [] c = None"
| "strchr (x # xs) c =
     (if x = c then Some 0 else if x = NUL then None else map_option Suc (strchr xs c))"

text \<open>\<open>memcpy (dst + i, src, n)\<close> for a source of \<open>n\<close> bytes.\<close>

definition store_at :: "bytes \<Rightarrow> nat \<Rightarrow> bytes \<Rightarrow> bytes option" where
  "store_at dst i src =
     (if i + length src \<le> length dst
      then Some (take i dst @ src @ drop (i + length src) dst) else None)"

definition strcpy :: "bytes \<Rightarrow> bytes \<Rightarrow> bytes option" where
  "strcpy dst src = store_at dst 0 (cstr src @ [NUL])"

definition strncpy :: "bytes \<Rightarrow> bytes \<Rightarrow> nat \<Rightarrow> bytes option" where
  "strncpy dst src n = store_at dst 0 (take n (cstr src @ replicate n NUL))"

text \<open>\<open>snprintf\<close> stores at most \<open>n\<close> bytes, the terminator included, of the formatted text;
  its result is the length of the whole text.\<close>

definition snprintf :: "bytes \<Rightarrow> nat \<Rightarrow> string \<Rightarrow> bytes option" where
  "snprintf dst n out =
     (if n = 0 then Some dst else store_at dst 0 (take (n - 1) out @ [NUL]))"

lemma cstr_NUL [simp]: "NUL \<notin> set s \<Longrightarrow> cstr (s @ NUL # r) = s"
  unfolding cstr_def by (rule takeWhile_stop) auto

lemma cstr_id [simp]: "NUL \<notin> set s \<Longrightarrow> cstr s = s"
  unfolding cstr_def by (simp add: takeWhile_eq_all_conv)
    (metis (full_types))

lemma NUL_notin_cstr [simp]: "NUL \<notin> set (cstr bs)"
  unfolding cstr_def by (auto dest: set_takeWhileD)

lemma cstr_Nil [simp]: "cstr [] = []"
  by (simp add: cstr_def)

lemma cstr_Cons: "cstr (c # cs) = (if c = NUL then [] else c # cstr cs)"
  by (simp add: cstr_def)

lemma cstr_padded: "cstr (d @ NUL # r) = cstr d"
  by (induction d) (simp_all add: cstr_Cons)

lemma length_cstr_le: "length (cstr bs) \<le> length bs"
  by (simp add: cstr_def length_takeWhile_le)

lemma length_cstr_terminated: "terminated bs \<Longrightarrow> length (cstr bs) < length bs"
  unfolding cstr_def terminated_def
  by (induction bs) auto

lemma store_at_length: "store_at d i s = Some d' \<Longrightarrow> length d' = length d"
  by (auto simp: store_at_def split: if_splits)

lemma store_at_fits: "i + length s \<le> length d \<Longrightarrow> \<exists>d'. store_at d i s = Some d'"
  by (simp add: store_at_def)

lemma strchr_Some:
  "strchr bs c = Some i \<Longrightarrow> i < length bs \<and> bs ! i = c \<and> c \<notin> set (take i bs) \<and> NUL \<notin> set (take i bs)"
  by (induction bs c arbitrary: i rule: strchr.induct) (auto split: if_splits)

lemma strchr_append:
  "c \<notin> set p \<Longrightarrow> NUL \<notin> set p \<Longrightarrow> strchr (p @ c # r) c = Some (length p)"
  by (induction p) auto

lemma strchr_None_notin: "c \<noteq> NUL \<Longrightarrow> strchr bs c = None \<longleftrightarrow> c \<notin> set (cstr bs)"
  by (induction bs) (auto simp: cstr_def)

section \<open>Numbers in text\<close>

definition digit_char :: "nat \<Rightarrow> char" where
  "digit_char d = (if d < 10 then char_of (48 + d) else char_of (87 + d))"

text \<open>The digits of a number in a base from 2 to 16, most significant first.\<close>

fun show_base :: "nat \<Rightarrow> nat \<Rightarrow> string" where
  "show_base b n =
     (if b < 2 \<or> n < b then [digit_char n] else show_base b (n div b) @ [digit_char (n mod b)])"

declare show_base.simps [simp del]

abbreviation show_nat :: "nat \<Rightarrow> string" where "show_nat \<equiv> show_base 10"

definition show_int :: "int \<Rightarrow> string" where
  "show_int i = (if i < 0 then CHR ''-'' # show_nat (nat (- i)) else show_nat (nat i))"

definition zero_pad :: "nat \<Rightarrow> string \<Rightarrow> string" where
  "zero_pad w s = replicate (w - length s) (CHR ''0'') @ s"

text \<open>Arguments of a format: \<open>%s\<close>, \<open>%d\<close>, \<open>%u\<close>/\<open>%llu\<close>, \<open>%02x\<close>, \<open>%04d\<close>.\<close>

datatype fmt_arg = FS string | FD int | FU nat | FX2 nat | FD4 nat

fun show_arg :: "fmt_arg \<Rightarrow> string" where
  "show_arg (FS s) = s"
| "show_arg (FD i) = show_int i"
| "show_arg (FU n) = show_nat n"
| "show_arg (FX2 n) = zero_pad 2 (show_base 16 n)"
| "show_arg (FD4 n) = zero_pad 4 (show_nat n)"

text \<open>A format as the list of its literal pieces and conversions.\<close>

datatype fmt_piece = Lit string | Arg fmt_arg

fun print_piece :: "fmt_piece \<Rightarrow> string" where
  "print_piece (Lit s) = s"
| "print_piece (Arg a) = show_arg a"

definition format :: "fmt_piece list \<Rightarrow> string" where
  "format ps = concat (map print_piece ps)"

fun digit_val :: "char \<Rightarrow> nat option" where
  "digit_val c =
     (let k = of_char c :: nat in
      if 48 \<le> k \<and> k \<le> 57 then Some (k - 48)
      else if 97 \<le> k \<and> k \<le> 102 then Some (k - 87)
      else if 65 \<le> k \<and> k \<le> 70 then Some (k - 55)
      else None)"

declare digit_val.simps [simp del]

text \<open>The longest run of digits of a base at the front of a string: its value, and what is left.\<close>

fun read_digits :: "nat \<Rightarrow> nat \<Rightarrow> string \<Rightarrow> nat \<times> string" where
  "read_digits b v [] = (v, [])"
| "read_digits b v (c # cs) =
     (case digit_val c of
        Some d \<Rightarrow> if d < b then read_digits b (v * b + d) cs else (v, c # cs)
      | None \<Rightarrow> (v, c # cs))"

definition starts_digit :: "nat \<Rightarrow> string \<Rightarrow> bool" where
  "starts_digit b s \<longleftrightarrow> (case s of [] \<Rightarrow> False | c # _ \<Rightarrow>
     (case digit_val c of Some d \<Rightarrow> d < b | None \<Rightarrow> False))"

lemma digit_val_digit_char [simp]: "d < 16 \<Longrightarrow> digit_val (digit_char d) = Some d"
  by (auto simp: digit_val.simps digit_char_def Let_def)

lemma show_base_small: "n < b \<Longrightarrow> show_base b n = [digit_char n]"
  by (subst show_base.simps) simp

lemma show_base_step:
  "2 \<le> b \<Longrightarrow> b \<le> n \<Longrightarrow> show_base b n = show_base b (n div b) @ [digit_char (n mod b)]"
  by (subst show_base.simps) simp

lemma show_base_nonempty [simp]: "show_base b n \<noteq> []"
  by (subst show_base.simps) simp

lemma digit_char_not_NUL [simp]: "d < 16 \<Longrightarrow> digit_char d \<noteq> NUL"
  using digit_val_digit_char[of d] by (auto simp: digit_val.simps Let_def)

lemma show_base_digits:
  "2 \<le> b \<Longrightarrow> b \<le> 16 \<Longrightarrow> c \<in> set (show_base b n) \<Longrightarrow> \<exists>d < b. c = digit_char d"
proof (induction b n rule: show_base.induct)
  case (1 b n)
  show ?case
  proof (cases "n < b")
    case True
    with "1.prems" show ?thesis by (auto simp: show_base_small)
  next
    case False
    with "1.prems" have "c \<in> set (show_base b (n div b)) \<or> c = digit_char (n mod b)"
      by (auto simp: show_base_step)
    with False "1.prems" show ?thesis
      using "1.IH" mod_less_divisor[of b n] by fastforce
  qed
qed

lemma show_base_no_NUL [simp]:
  assumes "2 \<le> b" "b \<le> 16"
  shows "NUL \<notin> set (show_base b n)"
proof
  assume "NUL \<in> set (show_base b n)"
  then obtain d where "d < b" "NUL = digit_char d"
    using show_base_digits assms by blast
  with assms show False using digit_char_not_NUL[of d] by simp
qed

text \<open>Reading digits back: any accumulator, any text after the number.\<close>

lemma read_digits_append:
  assumes "\<forall>c \<in> set ds. \<exists>d. digit_val c = Some d \<and> d < b"
  shows "read_digits b v (ds @ r) = read_digits b (fst (read_digits b v ds)) r"
  using assms
proof (induction ds arbitrary: v)
  case Nil
  then show ?case by simp
next
  case (Cons c ds)
  then obtain d where "digit_val c = Some d" "d < b" by auto
  with Cons show ?case by simp
qed

lemma show_base_valid:
  "2 \<le> b \<Longrightarrow> b \<le> 16 \<Longrightarrow> \<forall>c \<in> set (show_base b n). \<exists>d. digit_val c = Some d \<and> d < b"
  using show_base_digits digit_val_digit_char by (metis order_less_le_trans)

lemma read_digits_stop: "\<not> starts_digit b r \<Longrightarrow> read_digits b v r = (v, r)"
  by (cases r) (auto simp: starts_digit_def split: option.splits)

lemma read_show_acc:
  "2 \<le> b \<Longrightarrow> b \<le> 16 \<Longrightarrow>
   fst (read_digits b v (show_base b n)) = v * b ^ length (show_base b n) + n"
proof (induction b n arbitrary: v rule: show_base.induct)
  case (1 b n)
  show ?case
  proof (cases "n < b")
    case True
    with "1.prems" show ?thesis by (simp add: show_base_small)
  next
    case False
    let ?hi = "show_base b (n div b)"
    have "fst (read_digits b v ?hi) = v * b ^ length ?hi + n div b"
      using "1.IH" "1.prems" False by simp
    moreover have "n mod b < b" "n mod b < 16"
      using "1.prems" mod_less_divisor[of b n] by linarith+
    ultimately show ?thesis using False "1.prems"
      by (simp add: show_base_step read_digits_append[OF show_base_valid] algebra_simps)
  qed
qed

lemma read_show [fmt_simps]:
  assumes "2 \<le> b" "b \<le> 16" "\<not> starts_digit b r"
  shows "read_digits b 0 (show_base b n @ r) = (n, r)"
  using read_show_acc[of b 0 n] assms
  by (simp add: read_digits_append[OF show_base_valid] read_digits_stop)

text \<open>How long a printed number can be.\<close>

lemma length_show_base: "2 \<le> b \<Longrightarrow> n < b ^ Suc k \<Longrightarrow> length (show_base b n) \<le> Suc k"
proof (induction k arbitrary: n)
  case 0
  then show ?case by (simp add: show_base_small)
next
  case (Suc k)
  show ?case
  proof (cases "n < b")
    case True
    then show ?thesis by (simp add: show_base_small)
  next
    case False
    have "n div b < b ^ Suc k"
      using Suc.prems by (simp add: less_mult_imp_div_less mult.commute)
    then show ?thesis using Suc.IH Suc.prems False by (simp add: show_base_step)
  qed
qed

lemma length_show_u64: "length (show_nat (unat (w :: uint64))) \<le> 20"
proof -
  have "unat w < 2 ^ 64" using unsigned_less[of w] by simp
  then have "unat w < 10 ^ Suc 19" by simp
  then show ?thesis using length_show_base[of 10 "unat w" 19] by simp
qed

lemma length_show_int: "int32_range i \<Longrightarrow> length (show_int i) \<le> 11"
  using length_show_base[of 10 "nat i" 9] length_show_base[of 10 "nat (- i)" 9]
  by (simp add: show_int_def int32_range_def) linarith

lemma show_int_no_NUL [simp]: "NUL \<notin> set (show_int i)"
  by (simp add: show_int_def)

section \<open>Formatted input\<close>

definition is_space :: "char \<Rightarrow> bool" where
  "is_space c \<longleftrightarrow> (let k = of_char c :: nat in (9 \<le> k \<and> k \<le> 13) \<or> k = 32 \<or> k = 160)"

text \<open>The literal part of a scan format: white space matches any run of white space, everything
  else itself.\<close>

fun match_lit :: "string \<Rightarrow> string \<Rightarrow> string option" where
  "match_lit [] s = Some s"
| "match_lit (c # cs) s =
     (if is_space c then match_lit cs (dropWhile is_space s)
      else (case s of [] \<Rightarrow> None | x # xs \<Rightarrow> if x = c then match_lit cs xs else None))"

text \<open>The conversion \<open>%d\<close>: white space, an optional minus sign, at least one digit; the value is
  stored in 32 bits.\<close>

definition scan_int :: "string \<Rightarrow> (int \<times> string) option" where
  "scan_int s =
     (let s1 = dropWhile is_space s;
          neg = (s1 \<noteq> [] \<and> hd s1 = CHR ''-'');
          s2 = (if neg then tl s1 else s1)
      in if starts_digit 10 s2
         then (case read_digits 10 0 s2 of (v, r) \<Rightarrow> Some (s32 (if neg then - int v else int v), r))
         else None)"

datatype scan_piece = SLit string | SInt

text \<open>\<open>sscanf\<close>: the values of the conversions before the first mismatch.\<close>

fun sscanf :: "scan_piece list \<Rightarrow> string \<Rightarrow> int list" where
  "sscanf [] s = []"
| "sscanf (SLit l # ps) s = (case match_lit l s of None \<Rightarrow> [] | Some r \<Rightarrow> sscanf ps r)"
| "sscanf (SInt # ps) s = (case scan_int s of None \<Rightarrow> [] | Some (v, r) \<Rightarrow> v # sscanf ps r)"

lemma starts_digit_show_base [simp]:
  assumes "2 \<le> b" "b \<le> 16"
  shows "starts_digit b (show_base b n @ r)"
proof -
  obtain c cs where c: "show_base b n = c # cs" by (cases "show_base b n") auto
  then have "\<exists>d. digit_val c = Some d \<and> d < b"
    using show_base_valid[OF assms, of n] by simp
  with c show ?thesis by (auto simp: starts_digit_def)
qed

lemma digit_not_space: "digit_val c = Some d \<Longrightarrow> \<not> is_space c \<and> c \<noteq> CHR ''-'' \<and> c \<noteq> CHR ''+''"
  by (auto simp: digit_val.simps is_space_def Let_def split: if_splits)

lemma dropWhile_space_show:
  assumes "2 \<le> b" "b \<le> 16"
  shows "dropWhile is_space (show_base b n @ r) = show_base b n @ r"
    and "hd (show_base b n @ r) \<noteq> CHR ''-''"
    and "hd (show_base b n @ r) \<noteq> CHR ''+''"
proof -
  obtain c cs where c: "show_base b n = c # cs" by (cases "show_base b n") auto
  then obtain d where "digit_val c = Some d"
    using show_base_valid[OF assms, of n] by auto
  note \<open>digit_val c = Some d\<close>[THEN digit_not_space]
  with c show "dropWhile is_space (show_base b n @ r) = show_base b n @ r"
    and "hd (show_base b n @ r) \<noteq> CHR ''-''" and "hd (show_base b n @ r) \<noteq> CHR ''+''" by simp_all
qed

lemma scan_show_int [fmt_simps]:
  assumes "\<not> starts_digit 10 r"
  shows "scan_int (show_int i @ r) = Some (s32 i, r)"
proof -
  have minus: "\<not> is_space CHR ''-''" by (simp add: is_space_def)
  show ?thesis
    using assms dropWhile_space_show[of 10 "nat i" r]
    by (simp add: scan_int_def show_int_def Let_def minus read_show del: dropWhile_eq_Nil_conv)
qed

lemma match_lit_append:
  "\<forall>c \<in> set l. \<not> is_space c \<Longrightarrow> match_lit l (l @ r) = Some r"
  by (induction l) auto

section \<open>The kernel's integer parser\<close>

text \<open>
  \<open>kstrtoint (s, 0, &v)\<close> belongs to the kernel, not to this repository; the code that calls it takes
  the parser as a parameter. Its documentation: an optional sign, a base chosen by the prefix
  (\<open>0x\<close> hexadecimal, \<open>0\<close> octal, else decimal), at most one trailing newline; \<open>-ERANGE\<close> on
  overflow and \<open>-EINVAL\<close> on a parsing error. What the drivers rely on is this contract.
\<close>

locale int_parser =
  fixes kstrtoint :: "string \<Rightarrow> errno + int"
  assumes parse_decimal: "int32_range i \<Longrightarrow> kstrtoint (show_int i) = Inr i"
    and parse_range: "kstrtoint s = Inr i \<Longrightarrow> int32_range i"
    and parse_error: "kstrtoint s = Inl e \<Longrightarrow> e = EINVAL \<or> e = ERANGE"
begin

lemma parse_inj:
  "int32_range i \<Longrightarrow> int32_range j \<Longrightarrow> show_int i = show_int j \<Longrightarrow> i = j"
  using parse_decimal by (metis sum.inject(2))

lemma parse_nat: "n < 2 ^ 31 \<Longrightarrow> kstrtoint (show_nat n) = Inr (int n)"
  using parse_decimal[of "int n"] by (simp add: int32_range_def show_int_def)

end

text \<open>An executable parser with that behaviour, so that the theorems that assume the contract can be
  instantiated and evaluated.\<close>

definition fixup_radix :: "string \<Rightarrow> nat \<times> string" where
  "fixup_radix s =
     (if s \<noteq> [] \<and> hd s = CHR ''0''
      then if tl s \<noteq> [] \<and> hd (tl s) \<in> {CHR ''x'', CHR ''X''} \<and> starts_digit 16 (tl (tl s))
           then (16, tl (tl s)) else (8, s)
      else (10, s))"

definition kstrtoull0 :: "string \<Rightarrow> errno + nat" where
  "kstrtoull0 s =
     (case fixup_radix s of (b, s') \<Rightarrow>
        (case read_digits b 0 s' of (v, r) \<Rightarrow>
           if 2 ^ 64 \<le> v then Inl ERANGE
           else if \<not> starts_digit b s' then Inl EINVAL
           else if r = [] \<or> r = [CHR 0x0A] then Inr v
           else Inl EINVAL))"

definition kstrtoint0 :: "string \<Rightarrow> errno + int" where
  "kstrtoint0 s =
     (let neg = (s \<noteq> [] \<and> hd s = CHR ''-'');
          sgn' = (s \<noteq> [] \<and> hd s \<in> {CHR ''-'', CHR ''+''})
      in case kstrtoull0 (if sgn' then tl s else s) of
           Inl e \<Rightarrow> Inl e
         | Inr v \<Rightarrow> (let i = (if neg then - int v else int v)
                    in if int32_range i then Inr i else Inl ERANGE))"

lemma hd_show_base:
  assumes "2 \<le> b" "b \<le> 16" "0 < n"
  shows "digit_val (hd (show_base b n)) \<noteq> Some 0"
  using assms
proof (induction b n rule: show_base.induct)
  case (1 b n)
  show ?case
  proof (cases "n < b")
    case True
    with "1.prems" show ?thesis by (simp add: show_base_small)
  next
    case False
    with "1.prems" have "0 < n div b" by (simp add: div_greater_zero_iff)
    with False "1.prems" "1.IH" show ?thesis by (simp add: show_base_step)
  qed
qed

lemma fixup_radix_show: "0 < n \<Longrightarrow> fixup_radix (show_nat n) = (10, show_nat n)"
  using hd_show_base[of 10 n] by (auto simp: fixup_radix_def digit_val.simps)

lemma kstrtoull0_show: "n < 2 ^ 64 \<Longrightarrow> kstrtoull0 (show_nat n) = Inr n"
proof (cases "n = 0")
  case True
  have "fixup_radix (show_nat 0) = (8, show_nat 0)"
    by (simp add: fixup_radix_def show_base_small digit_char_def) code_simp
  moreover have "show_nat 0 = show_base 8 0"
    by (simp add: show_base_small)
  ultimately show ?thesis
    using True read_show[of 8 "[]" 0] starts_digit_show_base[of 8 0 "[]"]
    by (simp add: kstrtoull0_def starts_digit_def)
next
  case False
  assume "n < 2 ^ 64"
  with False show ?thesis
    using read_show[of 10 "[]" n] starts_digit_show_base[of 10 n "[]"]
    by (simp add: kstrtoull0_def fixup_radix_show starts_digit_def)
qed

interpretation kp: int_parser kstrtoint0
proof unfold_locales
  fix i :: int
  assume i: "int32_range i"
  then have "nat i < 2 ^ 64" "nat (- i) < 2 ^ 64" by (auto simp: int32_range_def)
  then show "kstrtoint0 (show_int i) = Inr i"
    using i dropWhile_space_show[of 10 "nat i" "[]"]
    by (simp add: kstrtoint0_def show_int_def kstrtoull0_show Let_def)
next
  fix s i
  show "kstrtoint0 s = Inr i \<Longrightarrow> int32_range i"
    by (auto simp: kstrtoint0_def Let_def split: sum.splits if_splits)
next
  fix s e
  show "kstrtoint0 s = Inl e \<Longrightarrow> e = EINVAL \<or> e = ERANGE"
    by (auto simp: kstrtoint0_def kstrtoull0_def Let_def split: sum.splits if_splits prod.splits)
qed

end
