(* ===== verification/Genz_Bus.thy ===== *)
theory Genz_Bus
  imports Genz_Class C_String
begin

text \<open>
  The Gen-Z bus: \<open>subsystem/genz_bus.c\<close> and \<open>subsystem/genz_bus.h\<close>. Bus instances are found or
  created by PCI slot number, the subsystem module registers and removes its classes, root device,
  bus type and fabrics directory, and one \<open>struct genz_device\<close> can be registered at a time.
  The lemmas show that a slot number always names the same bus, that the list never holds two buses
  of one number, and what the module holds after \<open>init\<close>, its error exits and \<open>exit\<close>.
\<close>

section \<open>State\<close>

text \<open>A bus instance is known by the address of its allocation; \<open>&match->bus_dev\<close> is that
  address too (the embedded device is never compared with anything else).\<close>

record genz_bus_instance =
  bus_addr :: addr
  bus_id :: uint32

record genz_device =
  namefmt :: bytes
  flags :: uint64
  private_data :: addr

record bus_state = kernel +
  genz_bus_list :: "genz_bus_instance list"
  genz_root_device :: addr
  genz_devices :: "addr \<rightharpoonup> genz_device"
  the_one :: addr

definition MAXBUSES :: int where "MAXBUSES = 254"
definition POTPOURRID :: int where "POTPOURRID = MAXBUSES + 1"
definition GZNAMFMTSIZ :: nat where "GZNAMFMTSIZ = 64"

section \<open>Finding a bus\<close>

text \<open>\<open>list_for_each_entry ... if (desired == tmp->id)\<close>: the first instance with that id.\<close>

fun find_bus :: "genz_bus_instance list \<Rightarrow> uint32 \<Rightarrow> genz_bus_instance option" where
  "find_bus [] d = None"
| "find_bus (b # bs) d = (if d = bus_id b then Some b else find_bus bs d)"

text \<open>
  \<open>kz\<close> is what \<open>kzalloc\<close> returns and \<open>dev_add\<close> what \<open>device_add\<close> returns. The result is the
  address of the instance or NULL.
\<close>

definition genz_find_bus_by_PCIslotnum ::
  "addr \<Rightarrow> int \<Rightarrow> int \<Rightarrow> 'a bus_state_scheme \<Rightarrow> addr \<times> 'a bus_state_scheme" where
  "genz_find_bus_by_PCIslotnum kz dev_add desired s =
     (if desired > MAXBUSES then (NULL, s)
      else
        let desired' = (if desired < 0 then POTPOURRID else desired) in
        case find_bus (genz_bus_list s) (word_of_int desired') of
          Some m \<Rightarrow> (bus_addr m, s)
        | None \<Rightarrow>
            if kz = NULL then (NULL, s)
            else
              let s1 = k_acquire (Kmem kz) s in
              if dev_add \<noteq> 0 then (NULL, k_kfree kz s1)
              else (kz, (k_acquire (BusDevice kz) s1)
                     \<lparr>genz_bus_list := genz_bus_list s @ [\<lparr>bus_addr = kz, bus_id = word_of_int desired'\<rparr>]\<rparr>))"

section \<open>Devices\<close>

text \<open>The customization callback of the only caller prints a message and changes nothing.\<close>

definition genz_device_customize :: "genz_device \<Rightarrow> genz_device" where
  "genz_device_customize d = d"

definition alloc_genzdev ::
  "addr \<Rightarrow> bytes \<Rightarrow> (genz_device \<Rightarrow> genz_device) \<Rightarrow> 'a bus_state_scheme \<Rightarrow>
   (addr \<times> 'a bus_state_scheme) option" where
  "alloc_genzdev kz nf customize_cb s =
     (if kz = NULL then Some (NULL, s)
      else do {
        n \<leftarrow> strcpy (replicate GZNAMFMTSIZ NUL) nf;
        let d = customize_cb \<lparr>namefmt = n, flags = 0, private_data = NULL\<rparr>;
        Some (kz, (k_acquire (Kmem kz) s)\<lparr>genz_devices := (genz_devices s)(kz \<mapsto> d)\<rparr>)
      })"

definition register_genzdev :: "addr \<Rightarrow> 'a bus_state_scheme \<Rightarrow> int \<times> 'a bus_state_scheme" where
  "register_genzdev dev s =
     (if the_one s \<noteq> NULL then (err EALREADY, s) else (0, s\<lparr>the_one := dev\<rparr>))"

definition unregister_genzdev :: "addr \<Rightarrow> 'a bus_state_scheme \<Rightarrow> 'a bus_state_scheme" where
  "unregister_genzdev dev s =
     (if the_one s \<noteq> NULL \<and> the_one s = dev then s\<lparr>the_one := NULL\<rparr> else s)"

definition genz_init_one :: "addr \<Rightarrow> 'a bus_state_scheme \<Rightarrow> (int \<times> 'a bus_state_scheme) option" where
  "genz_init_one kz s = do {
     (dev, s1) \<leftarrow> alloc_genzdev kz ''genz%02d'' genz_device_customize s;
     if dev = NULL then Some (err ENOMEM, s1) else Some (register_genzdev dev s1)
   }"

section \<open>The bus type\<close>

text \<open>The callbacks that only print a message and return a constant.\<close>

definition genz_match :: "addr \<Rightarrow> addr \<Rightarrow> int" where "genz_match dev drv = 1"
definition genz_num_vf :: "addr \<Rightarrow> int" where "genz_num_vf dev = 1"

definition genz_remove_one_device :: "addr \<Rightarrow> 'a bus_state_scheme \<Rightarrow> int \<times> 'a bus_state_scheme" where
  "genz_remove_one_device dev s = (0, s)"

text \<open>\<open>struct bus_type\<close> as far as the module fills it; \<open>kz\<close> is the allocation of the probe.\<close>

record 's bus_type =
  bt_name :: string
  bt_dev_name :: string
  bt_dev_root :: addr
  bt_match :: "addr \<Rightarrow> addr \<Rightarrow> int"
  bt_probe :: "addr \<Rightarrow> 's \<Rightarrow> (int \<times> 's) option"
  bt_remove :: "addr \<Rightarrow> 's \<Rightarrow> int \<times> 's"
  bt_num_vf :: "addr \<Rightarrow> int"

definition genz_bus_type :: "addr \<Rightarrow> 'a bus_state_scheme bus_type" where
  "genz_bus_type kz = \<lparr>bt_name = ''genz_fabric'', bt_dev_name = ''genz%u'', bt_dev_root = NULL, bt_match = genz_match,
     bt_probe = (\<lambda>dev. genz_init_one kz), bt_remove = genz_remove_one_device, bt_num_vf = genz_num_vf\<rparr>"

section \<open>The subsystem module\<close>

text \<open>
  What the kernel answers during \<open>genz_subsystem_init\<close>: \<open>class_register\<close> per index,
  \<open>root_device_register\<close> (NULL for failure, as the code tests it), \<open>bus_register\<close> and
  \<open>kset_create_and_add\<close>.
\<close>

record subsystem_env =
  env_class_register :: "nat \<Rightarrow> int"
  env_root_device :: addr
  env_bus_register :: int
  env_kset :: addr

definition genz_subsystem_init ::
  "subsystem_env \<Rightarrow> 'a bus_state_scheme \<Rightarrow> int \<times> 'a bus_state_scheme" where
  "genz_subsystem_init env s =
     (case genz_classes_init (env_class_register env) s of (ret, s1) \<Rightarrow>
        if ret \<noteq> 0 then (ret, s1)
        else
          let s2 = s1\<lparr>genz_root_device := env_root_device env\<rparr> in
          if env_root_device env = NULL then (ret, genz_classes_destroy s2)
          else
            let s3 = k_acquire RootDevice s2; ret = env_bus_register env in
            if ret \<noteq> 0 then (ret, genz_classes_destroy (k_release RootDevice s3))
            else
              let s4 = k_acquire BusType s3 in
              if env_kset env = NULL
              then (err ENOMEM,
                    genz_classes_destroy (k_release RootDevice (k_release BusType s4)))
              else (0, k_acquire FabricsKset s4))"

text \<open>\<open>device_del; put_device; kfree\<close> for each instance; the list itself is left as it is.\<close>

fun destroy_buses :: "genz_bus_instance list \<Rightarrow> 'a kernel_scheme \<Rightarrow> 'a kernel_scheme" where
  "destroy_buses [] s = s"
| "destroy_buses (b # bs) s =
     destroy_buses bs (k_kfree (bus_addr b) (k_release (BusDevice (bus_addr b)) s))"

definition genz_subsystem_exit :: "'a bus_state_scheme \<Rightarrow> 'a bus_state_scheme" where
  "genz_subsystem_exit s =
     genz_classes_destroy (k_release BusType (k_release RootDevice (k_release FabricsKset
       (destroy_buses (genz_bus_list s) s))))"

section \<open>Lemmas\<close>

lemma find_bus_Some: "find_bus bs d = Some b \<Longrightarrow> b \<in> set bs \<and> bus_id b = d"
  by (induction bs d rule: find_bus.induct) (auto split: if_splits)

lemma find_bus_None: "find_bus bs d = None \<longleftrightarrow> d \<notin> bus_id ` set bs"
  by (induction bs d rule: find_bus.induct) auto

lemma find_bus_append:
  "find_bus (bs @ cs) d = (case find_bus bs d of Some b \<Rightarrow> Some b | None \<Rightarrow> find_bus cs d)"
  by (induction bs d rule: find_bus.induct) auto

text \<open>
  The invariant of the bus list: one instance per id, ids that fit the name format
  \<open>genz%02x\<close>, non-NULL addresses, and every instance still owned by the module.
\<close>

definition bus_inv :: "'a bus_state_scheme \<Rightarrow> bool" where
  "bus_inv s \<longleftrightarrow>
     distinct (map bus_id (genz_bus_list s)) \<and>
     (\<forall>b \<in> set (genz_bus_list s). bus_id b \<le> 255 \<and> bus_addr b \<noteq> NULL) \<and>
     mset (concat (map (\<lambda>b. [Kmem (bus_addr b), BusDevice (bus_addr b)]) (genz_bus_list s)))
       \<subseteq># mset (held (led s))"

abbreviation slot_id :: "int \<Rightarrow> uint32" where
  "slot_id desired \<equiv> word_of_int (if desired < 0 then POTPOURRID else desired)"

lemma slot_id_le: "desired \<le> MAXBUSES \<Longrightarrow> slot_id desired \<le> 255"
  using word_of_int_mono[of desired 255, where ?'a = 32]
  by (simp add: MAXBUSES_def POTPOURRID_def)

lemma find_bus_cases:
  assumes "genz_find_bus_by_PCIslotnum kz da d s = (p, s')"
  obtains (fail) "p = NULL" "balanced (led s) (led s')" "genz_bus_list s' = genz_bus_list s"
    | (found) b where "d \<le> MAXBUSES" "find_bus (genz_bus_list s) (slot_id d) = Some b"
        "p = bus_addr b" "s' = s"
    | (created) "d \<le> MAXBUSES" "find_bus (genz_bus_list s) (slot_id d) = None"
        "p = kz" "kz \<noteq> NULL" "da = 0"
        "genz_bus_list s' = genz_bus_list s @ [\<lparr>bus_addr = kz, bus_id = slot_id d\<rparr>]"
        "led s' = acquire (BusDevice kz) (acquire (Kmem kz) (led s))"
  using assms
  by (auto simp: genz_find_bus_by_PCIslotnum_def Let_def balanced_def ledger_simps
      split: if_splits option.splits)

lemma find_bus_hit:
  "d \<le> MAXBUSES \<Longrightarrow> find_bus (genz_bus_list s) (slot_id d) = Some b \<Longrightarrow>
   genz_find_bus_by_PCIslotnum kz da d s = (bus_addr b, s)"
  by (simp add: genz_find_bus_by_PCIslotnum_def Let_def)

lemma find_bus_keeps:
  assumes "genz_find_bus_by_PCIslotnum kz da d s = (p, s')"
    and "find_bus (genz_bus_list s) i = Some b"
  shows "find_bus (genz_bus_list s') i = Some b"
  using assms by (cases rule: find_bus_cases) (auto simp: find_bus_append)

lemma find_bus_result:
  assumes "genz_find_bus_by_PCIslotnum kz da d s = (p, s')" and "p \<noteq> NULL"
  shows "d \<le> MAXBUSES \<and> (\<exists>b. find_bus (genz_bus_list s') (slot_id d) = Some b \<and> bus_addr b = p)"
  using assms by (cases rule: find_bus_cases) (auto simp: find_bus_append)

lemma find_bus_inv:
  assumes "bus_inv s"
  shows "bus_inv (snd (genz_find_bus_by_PCIslotnum kz da d s))"
proof -
  obtain p s' where eq: "genz_find_bus_by_PCIslotnum kz da d s = (p, s')" by fastforce
  then have "bus_inv s'"
  proof (cases rule: find_bus_cases)
    case fail
    with assms show ?thesis by (simp add: bus_inv_def balanced_def)
  next
    case (found b)
    with assms show ?thesis by simp
  next
    case created
    with assms slot_id_le[of d] show ?thesis
      by (auto simp: bus_inv_def find_bus_None ledger_simps add_mset_commute)
  qed
  with eq show ?thesis by simp
qed

section \<open>The interface to the devices\<close>

text \<open>
  What a client of the bus component may rely on: a lookup keeps the invariant, and once a key has
  been given an address it keeps it through any number of lookups of any keys.
\<close>

locale stable_lookup =
  fixes lookup :: "'e \<Rightarrow> 'k \<Rightarrow> 's \<Rightarrow> addr \<times> 's"
    and invar :: "'s \<Rightarrow> bool"
    and bound :: "'s \<Rightarrow> 'k \<Rightarrow> addr \<Rightarrow> bool"
  assumes lookup_inv: "invar s \<Longrightarrow> invar (snd (lookup e k s))"
    and lookup_binds: "lookup e k s = (p, s') \<Longrightarrow> p \<noteq> NULL \<Longrightarrow> bound s' k p"
    and lookup_keeps: "bound s k p \<Longrightarrow> bound (snd (lookup e j s)) k p"
    and lookup_bound: "bound s k p \<Longrightarrow> lookup e k s = (p, s)"
begin

lemma run_inv: "invar s \<Longrightarrow> invar (fold (\<lambda>(e, k) s. snd (lookup e k s)) qs s)"
  by (induction qs arbitrary: s) (auto simp: lookup_inv)

lemma run_keeps: "bound s k p \<Longrightarrow> bound (fold (\<lambda>(e, j) s. snd (lookup e j s)) qs s) k p"
  by (induction qs arbitrary: s) (auto simp: lookup_keeps)

lemma lookup_stable:
  assumes "lookup e k s = (p, s')" and "p \<noteq> NULL"
  shows "lookup e' k (fold (\<lambda>(e, j) s. snd (lookup e j s)) qs s')
           = (p, fold (\<lambda>(e, j) s. snd (lookup e j s)) qs s')"
  using lookup_binds[OF assms] run_keeps lookup_bound by blast

end

definition bus_bound :: "'a bus_state_scheme \<Rightarrow> int \<Rightarrow> addr \<Rightarrow> bool" where
  "bus_bound s d p \<longleftrightarrow>
     d \<le> MAXBUSES \<and> (\<exists>b. find_bus (genz_bus_list s) (slot_id d) = Some b \<and> bus_addr b = p)"

interpretation bus: stable_lookup
  "\<lambda>e. genz_find_bus_by_PCIslotnum (fst e) (snd e)" bus_inv bus_bound
proof unfold_locales
  fix s :: "'a bus_state_scheme" and e :: "addr \<times> int" and k
  show "bus_inv s \<Longrightarrow> bus_inv (snd (genz_find_bus_by_PCIslotnum (fst e) (snd e) k s))"
    by (rule find_bus_inv)
next
  fix s s' :: "'a bus_state_scheme" and e :: "addr \<times> int" and k p
  show "genz_find_bus_by_PCIslotnum (fst e) (snd e) k s = (p, s') \<Longrightarrow> p \<noteq> NULL \<Longrightarrow> bus_bound s' k p"
    unfolding bus_bound_def by (rule find_bus_result)
next
  fix s :: "'a bus_state_scheme" and e :: "addr \<times> int" and k p j
  show "bus_bound s k p \<Longrightarrow> bus_bound (snd (genz_find_bus_by_PCIslotnum (fst e) (snd e) j s)) k p"
    using find_bus_keeps[OF surjective_pairing] by (fastforce simp: bus_bound_def)
next
  fix s :: "'a bus_state_scheme" and e :: "addr \<times> int" and k p
  show "bus_bound s k p \<Longrightarrow> genz_find_bus_by_PCIslotnum (fst e) (snd e) k s = (p, s)"
    by (auto simp: bus_bound_def find_bus_hit)
qed

text \<open>A sequence of lookups, each with its own answers of the allocator and of \<open>device_add\<close>.\<close>

definition bus_run ::
  "((addr \<times> int) \<times> int) list \<Rightarrow> 'a bus_state_scheme \<Rightarrow> 'a bus_state_scheme" where
  "bus_run qs s = fold (\<lambda>(e, d) s. snd (genz_find_bus_by_PCIslotnum (fst e) (snd e) d s)) qs s"

section \<open>What the module holds\<close>

definition owned :: "genz_bus_instance list \<Rightarrow> kres multiset" where
  "owned bs = mset (concat (map (\<lambda>b. [Kmem (bus_addr b), BusDevice (bus_addr b)]) bs))"

lemma owned_simps [simp]:
  "owned [] = {#}"
  "owned (b # bs) = {#Kmem (bus_addr b), BusDevice (bus_addr b)#} + owned bs"
  "owned (bs @ cs) = owned bs + owned cs"
  by (simp_all add: owned_def)

text \<open>The ledger is a base plus what the listed buses own.\<close>

definition bus_frame :: "kres multiset \<Rightarrow> kres list \<Rightarrow> 'a bus_state_scheme \<Rightarrow> bool" where
  "bus_frame B bd s \<longleftrightarrow>
     mset (held (led s)) = B + owned (genz_bus_list s) \<and> bad (led s) = bd \<and>
     (\<forall>b \<in> set (genz_bus_list s). bus_addr b \<noteq> NULL)"

lemma find_bus_frame:
  assumes "bus_frame B bd s"
  shows "bus_frame B bd (snd (genz_find_bus_by_PCIslotnum kz da d s))"
proof -
  obtain p s' where eq: "genz_find_bus_by_PCIslotnum kz da d s = (p, s')" by fastforce
  then have "bus_frame B bd s'"
    using assms
    by (cases rule: find_bus_cases) (auto simp: bus_frame_def balanced_def ledger_simps)
  with eq show ?thesis by simp
qed

lemma run_bus_frame: "bus_frame B bd s \<Longrightarrow> bus_frame B bd (bus_run qs s)"
  unfolding bus_run_def by (induction qs arbitrary: s) (auto simp: find_bus_frame)

lemma destroy_buses_led:
  assumes "mset (held (led s)) = B + owned bs" and "\<forall>b \<in> set bs. bus_addr b \<noteq> NULL"
  shows "mset (held (led (destroy_buses bs s))) = B \<and> bad (led (destroy_buses bs s)) = bad (led s)"
  using assms
  by (induction bs arbitrary: s) (auto simp: ledger_simps)

definition module_res :: "kres multiset" where
  "module_res = {#ClassReg 0, RootDevice, BusType, FabricsKset#}"

lemma subsystem_init_cases:
  assumes "genz_subsystem_init env s = (ret, s')"
  obtains (error) "ret \<noteq> 0" "balanced (led s) (led s')" "genz_bus_list s' = genz_bus_list s"
    | (no_root) "ret = 0" "env_root_device env = NULL" "balanced (led s) (led s')"
        "genz_bus_list s' = genz_bus_list s"
    | (ok) "ret = 0" "env_root_device env \<noteq> NULL" "genz_bus_list s' = genz_bus_list s"
        "mset (held (led s')) = module_res + mset (held (led s))" "bad (led s') = bad (led s)"
proof -
  obtain r s1 where c: "genz_classes_init (env_class_register env) s = (r, s1)" by fastforce
  show thesis
  proof (cases "r = 0")
    case False
    with c assms show ?thesis
      using error classes_init_balanced[OF c] by (simp add: genz_subsystem_init_def)
  next
    case True
    with c have "s1 = k_acquire (ClassReg 0) s" by (simp add: classes_init_ok)
    with True c assms show ?thesis
      using error no_root ok
      by (auto simp: genz_subsystem_init_def genz_classes_destroy_def Let_def balanced_def
          module_res_def ledger_simps split: if_splits)
  qed
qed

lemma subsystem_exit_led:
  assumes "bus_frame (module_res + B) bd s"
  shows "mset (held (led (genz_subsystem_exit s))) = B \<and> bad (led (genz_subsystem_exit s)) = bd"
  using assms destroy_buses_led[of s "module_res + B" "genz_bus_list s"]
  by (simp add: bus_frame_def genz_subsystem_exit_def genz_classes_destroy_def module_res_def
      ledger_simps)

section \<open>Properties\<close>

text \<open>C26: a PCI slot number names one bus for ever: once a lookup has returned a bus, every later
  lookup of the same number returns the same bus and changes nothing, whatever lookups of other
  numbers come between and whatever the allocator and \<open>device_add\<close> answer then.\<close>

theorem bus_lookup_stable:
  assumes "genz_find_bus_by_PCIslotnum kz da d s = (p, s')" and "p \<noteq> NULL"
  shows "genz_find_bus_by_PCIslotnum kz' da' d (bus_run qs s') = (p, bus_run qs s')"
  using bus.lookup_stable[of "(kz, da)" d s p s' "(kz', da')" qs] assms
  by (simp add: bus_run_def)

definition empty_bus_state :: bus_state where
  "empty_bus_state = \<lparr>led = \<lparr>held = [], bad = []\<rparr>, genz_bus_list = [], genz_root_device = NULL,
     genz_devices = Map.empty, the_one = NULL\<rparr>"

theorem bus_lookup_stable_witness:
  "genz_find_bus_by_PCIslotnum 0x2000 0 4
     (bus_run [((0x3000, 0), 5)] (snd (genz_find_bus_by_PCIslotnum 0x1000 0 4 empty_bus_state)))
   = (0x1000, bus_run [((0x3000, 0), 5)]
        (snd (genz_find_bus_by_PCIslotnum 0x1000 0 4 empty_bus_state)))"
proof -
  have "genz_find_bus_by_PCIslotnum 0x1000 0 4 empty_bus_state
      = (0x1000, snd (genz_find_bus_by_PCIslotnum 0x1000 0 4 empty_bus_state))"
    by (simp add: genz_find_bus_by_PCIslotnum_def empty_bus_state_def MAXBUSES_def)
  then show ?thesis by (rule bus_lookup_stable) simp
qed

text \<open>the bus list stays well-formed: from a state that satisfies it, any sequence of lookups
  keeps one instance per id, ids within the two hexadecimal digits of the device name, and every
  listed instance allocated and registered.\<close>

lemma bus_list_invariant:
  assumes "bus_inv s"
  shows "bus_inv (bus_run qs s)"
  unfolding bus_run_def by (rule bus.run_inv[OF assms])

lemma bus_list_invariant_witness:
  "bus_inv (bus_run [((0x1000, 0), 4), ((0x2000, 0), -1), ((0x3000, 0), 4)] empty_bus_state)"
proof -
  have "bus_inv empty_bus_state" by (simp add: bus_inv_def empty_bus_state_def)
  then show ?thesis by (rule bus_list_invariant)
qed


definition good_subsystem_env :: subsystem_env where
  "good_subsystem_env = \<lparr>env_class_register = (\<lambda>_. 0), env_root_device = 0x100,
     env_bus_register = 0, env_kset = 0x200\<rparr>"


text \<open>Devices come and go on the bus: \<open>Inl\<close> with the allocation of a probe, \<open>Inr\<close> with the device of a remove.\<close>

fun device_events :: "(addr + addr) list \<Rightarrow> 'a bus_state_scheme \<Rightarrow> (int list \<times> 'a bus_state_scheme) option" where
  "device_events [] s = Some ([], s)"
| "device_events (e # es) s = do {
     (r, s1) \<leftarrow> (case e of Inl kz \<Rightarrow> bt_probe (genz_bus_type kz) NULL s
                 | Inr dev \<Rightarrow> Some (bt_remove (genz_bus_type NULL) dev s));
     (rs, s2) \<leftarrow> device_events es s1;
     Some (r # rs, s2)
   }"

text \<open>What an event returns when a device is registered, and the allocations of the probes.\<close>

fun late_result :: "addr + addr \<Rightarrow> int" where
  "late_result (Inl kz) = err EALREADY"
| "late_result (Inr dev) = 0"

definition lefts :: "('a + 'b) list \<Rightarrow> 'a list" where
  "lefts es = List.map_filter (case_sum Some (\<lambda>_. None)) es"

lemma lefts_simps [simp]: "lefts [] = []" "lefts (Inl x # es) = x # lefts es" "lefts (Inr y # es) = lefts es"
  by (simp_all add: lefts_def List.map_filter_simps)

lemma probe_result:
  assumes "kz \<noteq> NULL"
  shows "\<exists>d. genz_init_one kz s = Some
    (if the_one s \<noteq> NULL then err EALREADY else 0,
     (k_acquire (Kmem kz) s)\<lparr>genz_devices := (genz_devices s)(kz \<mapsto> d),
       the_one := if the_one s \<noteq> NULL then the_one s else kz\<rparr>)"
proof -
  obtain n where n: "strcpy (replicate GZNAMFMTSIZ NUL) ''genz%02d'' = Some n"
    by (simp add: strcpy_def store_at_def GZNAMFMTSIZ_def)
  show ?thesis
    using assms by (intro exI[of _ "genz_device_customize \<lparr>namefmt = n, flags = 0, private_data = NULL\<rparr>"])
      (simp add: genz_init_one_def alloc_genzdev_def n register_genzdev_def Let_def)
qed

lemma device_events_taken:
  assumes "the_one s \<noteq> NULL" "\<forall>kz. Inl kz \<in> set es \<longrightarrow> kz \<noteq> NULL"
  shows "\<exists>s'. device_events es s = Some (map late_result es, s') \<and> the_one s' = the_one s \<and>
    mset (held (led s')) = mset (map Kmem (lefts es)) + mset (held (led s))"
  using assms
proof (induction es arbitrary: s)
  case (Cons e es)
  show ?case
  proof (cases e)
    case (Inl kz)
    with Cons.prems(2) have "kz \<noteq> NULL" by simp
    from probe_result[OF this, of s] Cons.prems(1) obtain s1 where s1: "genz_init_one kz s = Some (err EALREADY, s1)"
      "the_one s1 = the_one s" "mset (held (led s1)) = add_mset (Kmem kz) (mset (held (led s)))" by (auto simp: acquire_def)
    from Cons.IH[of s1] s1(2) Cons.prems obtain s' where
      "device_events es s1 = Some (map late_result es, s')" "the_one s' = the_one s1"
      "mset (held (led s')) = mset (map Kmem (lefts es)) + mset (held (led s1))" by auto
    with Inl s1 show ?thesis by (simp add: genz_bus_type_def)
  next
    case (Inr dev)
    from Cons.IH[of s] Cons.prems Inr show ?thesis by (auto simp: genz_bus_type_def genz_remove_one_device_def)
  qed
qed simp

text \<open>C30: the bus serves one device, ever. The first probe registers its device; after that, whatever devices are added
  and removed, every probe is answered with \<open>EALREADY\<close>, the first device stays registered although it may have been
  removed, and the allocation of each refused probe is kept: one block of memory is lost per probe.\<close>

theorem one_device_ever:
  assumes "kz \<noteq> NULL" "the_one s = NULL" "\<forall>kz'. Inl kz' \<in> set es \<longrightarrow> kz' \<noteq> NULL"
  shows "\<exists>s'. device_events (Inl kz # es) s = Some (0 # map late_result es, s') \<and>
    the_one s' = kz \<and> mset (held (led s')) = mset (map Kmem (kz # lefts es)) + mset (held (led s))"
proof -
  from probe_result[OF assms(1), of s] assms(2) obtain s1 where s1: "genz_init_one kz s = Some (0, s1)" "the_one s1 = kz"
    "mset (held (led s1)) = add_mset (Kmem kz) (mset (held (led s)))" by (auto simp: acquire_def)
  from device_events_taken[of s1 es] s1(2) assms(1,3) obtain s' where
    "device_events es s1 = Some (map late_result es, s')" "the_one s' = kz"
    "mset (held (led s')) = mset (map Kmem (lefts es)) + mset (held (led s1))" by auto
  with s1 show ?thesis by (simp add: genz_bus_type_def)
qed

theorem one_device_ever_witness:
  "\<exists>s'. device_events [Inl 0x1000, Inr 0x10, Inl 0x2000] empty_bus_state = Some ([0, 0, err EALREADY], s') \<and>
     the_one s' = 0x1000 \<and> mset (held (led s')) = {#Kmem 0x1000, Kmem 0x2000#}"
  using one_device_ever[of "0x1000" empty_bus_state "[Inr 0x10, Inl 0x2000]"] by (simp add: empty_bus_state_def)

end
