(* ===== verification/Genz_Device.thy ===== *)
theory Genz_Device
  imports Genz_Bus
begin

unbundle bit_operations_syntax

text \<open>
  Core structures and character devices: \<open>subsystem/genz_control.h\<close>, \<open>subsystem/genz_device.h\<close> and
  \<open>subsystem/genz_device.c\<close>. A driver creates a core structure, registers a character device for
  it on the bus of its PCI slot and unregisters it again. The lemmas say which minor number a
  registration gets, what each error exit leaves behind and what unregistering gives back.
\<close>

section \<open>Data\<close>

text \<open>\<open>struct genz_core_structure\<close>; \<open>Base_C_Class_str\<close> has 32 bytes.\<close>

record genz_core_structure =
  CCE :: uint32
  Base_C_Class_str :: bytes
  MaxInterface :: uint32
  MaxData :: uint32
  MaxCTL :: uint32
  CID0 :: int
  SID0 :: int
  PMCID :: int
  PFMCID :: int
  PFMSID :: int
  SFMCID :: int
  SFMSID :: int
  comp_dest_table :: addr

definition zero_core :: genz_core_structure where
  "zero_core = \<lparr>CCE = 0, Base_C_Class_str = replicate 32 NUL, MaxInterface = 0, MaxData = 0,
     MaxCTL = 0, CID0 = 0, SID0 = 0, PMCID = 0, PFMCID = 0, PFMSID = 0, SFMCID = 0, SFMSID = 0,
     comp_dest_table = NULL\<rparr>"

text \<open>A callback of a binary attribute: none, the default of this file, or the driver's own.\<close>

datatype sysfs_fn = No_fn | Default_fn | Custom_fn addr

record bin_attribute =
  attr_name :: string
  attr_name_ptr :: addr \<comment> \<open>the allocation that holds the name; NULL for a literal\<close>
  attr_size :: nat
  attr_private :: addr
  attr_read :: sysfs_fn
  attr_write :: sysfs_fn
  attr_mmap :: sysfs_fn

text \<open>A pointer that may be an \<open>ERR_PTR\<close>: an error on the left, an address on the right.\<close>

type_synonym errptr = "int + addr"

text \<open>\<open>struct genz_char_device\<close>. The members of \<open>cdev\<close> are \<open>cdev_ops\<close>, \<open>cdev_name\<close> (its kobject's),
  \<open>cdev_dev\<close> (major, minor) and \<open>cdev_count\<close>.\<close>

record genz_char_device =
  cd_core :: addr
  cd_instance :: int
  cd_cclass :: "string option"
  file_private_data :: addr
  cd_genz_class :: "nat option"
  cdev_ops :: addr
  cdev_name :: string
  cdev_dev :: "uint64 \<times> uint64"
  cdev_count :: nat
  cd_parent :: addr
  this_device :: errptr
  cd_mode :: nat
  sysCoreStructure :: "bin_attribute option"
  sysInterfaces :: addr
  iface_attrs_ptr :: addr
  iface_attrs :: "bin_attribute list"

definition zero_chrdev :: genz_char_device where
  "zero_chrdev = \<lparr>cd_core = NULL, cd_instance = 0, cd_cclass = None, file_private_data = NULL,
     cd_genz_class = None, cdev_ops = NULL, cdev_name = [], cdev_dev = (0, 0), cdev_count = 0, cd_parent = NULL,
     this_device = Inr NULL, cd_mode = 0, sysCoreStructure = None, sysInterfaces = NULL,
     iface_attrs_ptr = NULL, iface_attrs = []\<rparr>"

text \<open>The statics of the file: the bitmap of minor numbers as the set of bits that are on, and the
  major number; and the objects the module has allocated.\<close>

record genz_state = bus_state +
  cores :: "addr \<rightharpoonup> genz_core_structure"
  chrdevs :: "addr \<rightharpoonup> genz_char_device"
  bridge_minor_bitmap :: "nat \<Rightarrow> bool"
  bridge_major :: uint64

definition GENZ_MINORBITS :: nat where "GENZ_MINORBITS = 14"
definition MAXMINORS :: nat where "MAXMINORS = 2 ^ GENZ_MINORBITS"

definition GENZ_CORE_STRUCTURE_ALLOC_COMP_DEST_TABLE :: uint64 where
  "GENZ_CORE_STRUCTURE_ALLOC_COMP_DEST_TABLE = 1"

section \<open>Core structures\<close>

definition is_bridge :: "uint32 \<Rightarrow> bool" where
  "is_bridge c \<longleftrightarrow> c = cce_num DISCRETE_BRIDGE \<or> c = cce_num INTEGRATED_BRIDGE"

definition genz_core_structure_destroy ::
  "addr \<Rightarrow> 'a genz_state_scheme \<Rightarrow> 'a genz_state_scheme option" where
  "genz_core_structure_destroy p s =
     (if p = NULL then Some s
      else do {
        core \<leftarrow> cores s p;
        let s1 = (if comp_dest_table core \<noteq> NULL then k_kfree (comp_dest_table core) s else s);
        Some ((k_kfree p s1)\<lparr>cores := (cores s)(p := None)\<rparr>)
      })"

text \<open>\<open>kz\<close> and \<open>kz_table\<close> are the results of the two allocations.\<close>

definition genz_core_structure_create ::
  "addr \<Rightarrow> addr \<Rightarrow> uint32 \<Rightarrow> 'a genz_state_scheme \<Rightarrow> (errptr \<times> 'a genz_state_scheme) option" where
  "genz_core_structure_create kz kz_table cce s =
     (if \<not> is_bridge cce then Some (Inl (err EINVAL), s)
      else
        let alloc = GENZ_CORE_STRUCTURE_ALLOC_COMP_DEST_TABLE in
        if kz = NULL then Some (Inl (err ENOMEM), s)
        else
          let core = zero_core\<lparr>CCE := cce\<rparr>;
              s1 = (k_acquire (Kmem kz) s)\<lparr>cores := (cores s)(kz \<mapsto> core)\<rparr>
          in
          if alloc AND GENZ_CORE_STRUCTURE_ALLOC_COMP_DEST_TABLE = 0 then Some (Inr kz, s1)
          else if kz_table = NULL
          then do { s2 \<leftarrow> genz_core_structure_destroy kz s1; Some (Inl (err ENOMEM), s2) }
          else Some (Inr kz, (k_acquire (Kmem kz_table) s1)
                 \<lparr>cores := (cores s)(kz \<mapsto> core\<lparr>comp_dest_table := kz_table\<rparr>)\<rparr>))"

section \<open>The default sysfs callbacks\<close>

text \<open>Both return \<open>size\<close>; what matters is the buffer they leave.\<close>

definition chrdev_bin_read :: "uint64 \<Rightarrow> (uint64 \<times> bytes) option" where
  "chrdev_bin_read n = do {
     b \<leftarrow> snprintf (replicate (unat n) NUL) (unat (n - 1))
            (''You'' @ CHR 0x27 # ''re in a maze of twisty little passages, all alike.'' @ [CHR 0x0A]);
     Some (n, b)
   }"

definition chrdev_bin_write :: "bytes \<Rightarrow> uint64 \<Rightarrow> (uint64 \<times> bytes) option" where
  "chrdev_bin_write buf n =
     (if unat (n - 1) < length buf then Some (n, buf[unat (n - 1) := NUL]) else None)"

section \<open>Unregistering a character device\<close>

text \<open>
  \<open>sysfs_remove_bin_file\<close> removes a file that exists and is silent about one that does not;
  \<open>device_remove_bin_file\<close> does the same, and nothing for a NULL device; an \<open>ERR_PTR\<close> is dereferenced.
  \<open>device_destroy\<close> removes the device if it was created.
\<close>

definition quiet_release :: "kres \<Rightarrow> 'a kernel_scheme \<Rightarrow> 'a kernel_scheme" where
  "quiet_release r s = (if r \<in> set (held (led s)) then k_release r s else s)"

fun remove_ifaces :: "bin_attribute list \<Rightarrow> 'a kernel_scheme \<Rightarrow> 'a kernel_scheme" where
  "remove_ifaces [] s = s"
| "remove_ifaces (a # as) s =
     remove_ifaces as (k_kfree (attr_name_ptr a) (quiet_release (SysfsFile (attr_name_ptr a)) s))"

definition genz_unregister_char_device ::
  "addr \<Rightarrow> 'a genz_state_scheme \<Rightarrow> 'a genz_state_scheme option" where
  "genz_unregister_char_device p s =
     (if p = NULL then Some s
      else do {
        d \<leftarrow> chrdevs s p;
        s1 \<leftarrow> (if sysInterfaces d = NULL then Some s
              else do {
                core \<leftarrow> cores s (cd_core d);
                if length (iface_attrs d) < unat (MaxInterface core) then None
                else Some (k_release (SysfsDir (sysInterfaces d))
                       (k_kfree (iface_attrs_ptr d)
                         (remove_ifaces (take (unat (MaxInterface core)) (iface_attrs d)) s)))
              });
        s2 \<leftarrow> (case this_device d of
                Inl e \<Rightarrow> None
              | Inr dev \<Rightarrow>
                  if dev = NULL then Some s1
                  else Some (quiet_release (ClassDev dev) (quiet_release (SysfsFile dev) s1)));
        Some ((k_kfree p s2)\<lparr>chrdevs := (chrdevs s)(p := None)\<rparr>)
      })"

section \<open>Registering a character device\<close>

text \<open>
  The kernel's answers: the allocations (the structure, the array of attributes, the name of each
  interface), \<open>register_chrdev_region\<close>, \<open>alloc_chrdev_region\<close> with the major number it picks, the
  bus lookup's own answers, \<open>kobject_set_name\<close>, \<open>cdev_add\<close>, \<open>device_create\<close>,
  \<open>device_create_bin_file\<close>, \<open>kobject_create_and_add\<close> and \<open>sysfs_create_bin_file\<close> per interface.
\<close>

record chrdev_env =
  kz_chrdev :: addr
  kz_attrs :: addr
  kz_name :: "nat \<Rightarrow> addr"
  r_register_region :: int
  r_alloc_region :: int
  alloc_major :: uint64
  kz_bus :: addr
  r_bus_add :: int
  r_set_name :: int
  r_cdev_add :: int
  r_device_create :: errptr
  r_core_file :: int
  r_interfaces :: addr
  r_iface_file :: "nat \<Rightarrow> int"

fun free_names :: "bin_attribute list \<Rightarrow> 'a kernel_scheme \<Rightarrow> 'a kernel_scheme" where
  "free_names [] s = s"
| "free_names (a # as) s = free_names as (k_kfree (attr_name_ptr a) s)"

text \<open>The loop that allocates and fills \<open>iface_attrs[i]\<close>; \<open>done\<close> are the ones already filled.
  No attributes is the \<open>-ENOMEM\<close> exit, after the names so far are freed from the last down.\<close>

fun make_ifaces ::
  "(nat \<Rightarrow> addr) \<Rightarrow> bin_attribute \<Rightarrow> nat \<Rightarrow> bin_attribute list \<Rightarrow> 'a kernel_scheme \<Rightarrow>
   (bin_attribute list option \<times> 'a kernel_scheme) option" where
  "make_ifaces kzn final 0 done s = Some (Some done, s)"
| "make_ifaces kzn final (Suc n) done s =
     (let i = length done in
      if kzn i = NULL then Some (None, free_names (rev done) s)
      else do {
        nm \<leftarrow> strcpy (replicate 8 NUL) (show_arg (FD4 i));
        make_ifaces kzn final n
          (done @ [final\<lparr>attr_name := cstr nm, attr_name_ptr := kzn i, attr_size := 4096\<rparr>])
          (k_acquire (Kmem (kzn i)) s)
      })"

fun find_first_zero_bit_from :: "(nat \<Rightarrow> bool) \<Rightarrow> nat \<Rightarrow> nat \<Rightarrow> nat" where
  "find_first_zero_bit_from bm i 0 = i"
| "find_first_zero_bit_from bm i (Suc n) = (if bm i then find_first_zero_bit_from bm (Suc i) n else i)"

definition find_first_zero_bit :: "(nat \<Rightarrow> bool) \<Rightarrow> nat \<Rightarrow> nat" where
  "find_first_zero_bit bm n = find_first_zero_bit_from bm 0 n"

text \<open>\<open>for (i = 0; i < core->MaxInterface; i++) sysfs_create_bin_file (...)\<close>, until one fails.\<close>

fun create_iface_files ::
  "(nat \<Rightarrow> int) \<Rightarrow> nat \<Rightarrow> bin_attribute list \<Rightarrow> 'a kernel_scheme \<Rightarrow> int \<times> 'a kernel_scheme" where
  "create_iface_files r i [] s = (0, s)"
| "create_iface_files r i (a # as) s =
     (if r i \<noteq> 0 then (r i, s)
      else create_iface_files r (Suc i) as (k_acquire (SysfsFile (attr_name_ptr a)) s))"

text \<open>From \<open>cdev_init\<close> to the label: the device becomes visible.\<close>

definition publish_chrdev ::
  "chrdev_env \<Rightarrow> addr \<Rightarrow> string \<Rightarrow> bin_attribute \<Rightarrow> addr \<Rightarrow> uint64 \<times> uint64 \<Rightarrow>
   genz_char_device \<Rightarrow> 'a kernel_scheme \<Rightarrow> int \<times> genz_char_device \<times> 'a kernel_scheme" where
  "publish_chrdev env fops ownername final p devt d s =
     (let nm = format [Arg (FS ownername), Lit ''_'', Arg (FX2 (unat (word_of_int (cd_instance d) :: uint32)))];
          d = d\<lparr>cdev_ops := fops, cdev_dev := devt, cdev_count := 1\<rparr> in
      if r_set_name env \<noteq> 0 then (r_set_name env, d, s)
      else let d = d\<lparr>cdev_name := nm\<rparr> in
      if r_cdev_add env \<noteq> 0 then (r_cdev_add env, d, s)
      else let s = k_acquire (Cdev p) s; d = d\<lparr>this_device := r_device_create env\<rparr> in
      case r_device_create env of
        Inl e \<Rightarrow> (e, d, s)
      | Inr dev \<Rightarrow>
          let s = k_acquire (ClassDev dev) s;
              d = d\<lparr>sysCoreStructure := Some (final\<lparr>attr_name := ''core'', attr_name_ptr := NULL,
                                                    attr_size := 4096\<rparr>)\<rparr> in
          if r_core_file env \<noteq> 0 then (r_core_file env, d, s)
          else let s = k_acquire (SysfsFile dev) s; d = d\<lparr>sysInterfaces := r_interfaces env\<rparr> in
          if r_interfaces env = NULL then (err EBADF, d, s)
          else
            (case create_iface_files (r_iface_file env) 0 (iface_attrs d)
                    (k_acquire (SysfsDir (r_interfaces env)) s) of
               (ret, s) \<Rightarrow> (ret, d, s)))"

text \<open>The section under the mutex: a minor number, the device region, the bus, then the device.\<close>

definition register_locked ::
  "chrdev_env \<Rightarrow> addr \<Rightarrow> genz_core_structure \<Rightarrow> addr \<Rightarrow> string \<Rightarrow> addr \<Rightarrow> bin_attribute \<Rightarrow> int \<Rightarrow> addr \<Rightarrow>
   genz_char_device \<Rightarrow> 'a genz_state_scheme \<Rightarrow> int \<times> genz_char_device \<times> 'a genz_state_scheme" where
  "register_locked env core_p core fops ownername fpd final PCIslotnum p d s =
     (let minor = find_first_zero_bit (bridge_minor_bitmap s) GENZ_MINORBITS in
      if minor \<ge> GENZ_MINORBITS then (err EDOM, d, s)
      else
        let ret = (if bridge_major s \<noteq> 0 then r_register_region env else r_alloc_region env);
            s = (if bridge_major s = 0 \<and> ret = 0 then s\<lparr>bridge_major := alloc_major env\<rparr> else s) in
        if ret \<noteq> 0 then (ret, d, s)
        else
          let s = (k_acquire (ChrdevRegion (bridge_major s) (of_nat minor)) s)
                    \<lparr>bridge_minor_bitmap := (bridge_minor_bitmap s)(minor := True)\<rparr> in
          case genz_find_bus_by_PCIslotnum (kz_bus env) (r_bus_add env) PCIslotnum s of
            (parent, s) \<Rightarrow>
              if parent = NULL then (err ENODEV, d\<lparr>cd_parent := NULL\<rparr>, s)
              else publish_chrdev env fops ownername final p (bridge_major s, of_nat minor)
                     (d\<lparr>cd_parent := parent, cd_core := core_p, file_private_data := fpd,
                        cd_genz_class := genz_class_getter (CCE core),
                        cd_cclass := genz_component_class_str ! unat (CCE core),
                        cd_mode := 438, cd_instance := PCIslotnum\<rparr>) s)"

text \<open>"Do this math once": what the attributes of the device have in common.\<close>

definition final_attr :: "bin_attribute \<Rightarrow> addr \<Rightarrow> bin_attribute" where
  "final_attr attr_custom p = attr_custom
     \<lparr>attr_private := (if attr_private attr_custom \<noteq> NULL then attr_private attr_custom else p),
      attr_read := (if attr_read attr_custom \<noteq> No_fn then attr_read attr_custom else Default_fn),
      attr_write := (if attr_write attr_custom \<noteq> No_fn then attr_write attr_custom else Default_fn)\<rparr>"

text \<open>The label \<open>up_and_out\<close>: on an error the half-made device is unregistered.\<close>

definition register_up_and_out ::
  "addr \<Rightarrow> int \<Rightarrow> genz_char_device \<Rightarrow> 'a genz_state_scheme \<Rightarrow> (errptr \<times> 'a genz_state_scheme) option" where
  "register_up_and_out p ret d s =
     (let s1 = s\<lparr>chrdevs := (chrdevs s)(p \<mapsto> d)\<rparr> in
      if ret \<noteq> 0 then do { s2 \<leftarrow> genz_unregister_char_device p s1; Some (Inl ret, s2) }
      else Some (Inr p, s1))"

definition genz_register_char_device ::
  "chrdev_env \<Rightarrow> addr \<Rightarrow> addr \<Rightarrow> string \<Rightarrow> addr \<Rightarrow> bin_attribute \<Rightarrow> int \<Rightarrow>
   'a genz_state_scheme \<Rightarrow> (errptr \<times> 'a genz_state_scheme) option" where
  "genz_register_char_device env core_p fops ownername fpd attr_custom PCIslotnum s = do {
     core \<leftarrow> cores s core_p;
     if \<not> is_bridge (CCE core) then Some (Inl (err EDOM), s)
     else if MaxInterface core = 0 \<or> MaxInterface core > 1024 then Some (Inl (err EINVAL), s)
     else if MaxCTL core < 8192 then Some (Inl (err EINVAL), s)
     else if kz_chrdev env = NULL then Some (Inl (err ENOMEM), s)
     else do {
       let p = kz_chrdev env;
       let s1 = k_acquire (Kmem p) s;
       if kz_attrs env = NULL
       then Some (Inl (err ENOMEM), s1\<lparr>chrdevs := (chrdevs s)(p \<mapsto> zero_chrdev)\<rparr>)
       else do {
         let s2 = k_acquire (Kmem (kz_attrs env)) s1;
         let final = final_attr attr_custom p;
         let d = zero_chrdev\<lparr>iface_attrs_ptr := kz_attrs env\<rparr>;
         (ifs, s3) \<leftarrow> make_ifaces (kz_name env) final (unat (MaxInterface core)) [] s2;
         case ifs of
           None \<Rightarrow> Some (Inl (err ENOMEM), s3\<lparr>chrdevs := (chrdevs s)(p \<mapsto> d)\<rparr>)
         | Some as \<Rightarrow>
             (case register_locked env core_p core fops ownername fpd final PCIslotnum p
                     (d\<lparr>iface_attrs := as\<rparr>) s3 of
                (ret, d', s4) \<Rightarrow> register_up_and_out p ret d' s4)
       }
     }
   }"

section \<open>Lemmas: core structures\<close>

lemma core_create_error_balanced:
  assumes "genz_core_structure_create kz kzt cce s = Some (Inl e, s')"
  shows "balanced (led s) (led s') \<and> (e = err EINVAL \<or> e = err ENOMEM)"
  using assms
  by (auto simp: genz_core_structure_create_def genz_core_structure_destroy_def Let_def
      zero_core_def balanced_def ledger_simps split: if_splits)

lemma core_create_ok:
  assumes "genz_core_structure_create kz kzt cce s = Some (Inr p, s')"
  shows "p = kz \<and> kz \<noteq> NULL \<and> kzt \<noteq> NULL \<and> is_bridge cce \<and>
    cores s' = (cores s)(kz \<mapsto> zero_core\<lparr>CCE := cce, comp_dest_table := kzt\<rparr>) \<and>
    led s' = acquire (Kmem kzt) (acquire (Kmem kz) (led s))"
  using assms
  by (auto simp: genz_core_structure_create_def Let_def
      GENZ_CORE_STRUCTURE_ALLOC_COMP_DEST_TABLE_def split: if_splits)

lemma core_create_returns: "\<exists>r s'. genz_core_structure_create kz kzt cce s = Some (r, s')"
  by (auto simp: genz_core_structure_create_def genz_core_structure_destroy_def Let_def)

lemma core_destroy_led:
  assumes "cores s p = Some c" "p \<noteq> NULL" "comp_dest_table c \<noteq> NULL"
  shows "genz_core_structure_destroy p s =
    Some (s\<lparr>led := release (Kmem p) (release (Kmem (comp_dest_table c)) (led s)),
            cores := (cores s)(p := None)\<rparr>)"
  using assms by (simp add: genz_core_structure_destroy_def ledger_simps)

section \<open>Lemmas: the parts of a registration\<close>

lemma ffz_bounds: "i \<le> find_first_zero_bit_from bm i n \<and> find_first_zero_bit_from bm i n \<le> i + n"
proof (induction bm i n rule: find_first_zero_bit_from.induct)
  case (2 bm i n)
  then show ?case by auto
qed simp

lemma ffz_below: "i \<le> j \<Longrightarrow> j < find_first_zero_bit_from bm i n \<Longrightarrow> bm j"
proof (induction bm i n rule: find_first_zero_bit_from.induct)
  case (2 bm i n)
  then show ?case by (cases "j = i") (auto split: if_splits)
qed simp

lemma ffz_clear: "find_first_zero_bit_from bm i n < i + n \<Longrightarrow> \<not> bm (find_first_zero_bit_from bm i n)"
  by (induction bm i n rule: find_first_zero_bit_from.induct) auto

lemma find_first_zero_bit_le: "find_first_zero_bit bm n \<le> n"
  using ffz_bounds[of 0 bm n] by (simp add: find_first_zero_bit_def)

lemma find_first_zero_bit_below: "j < find_first_zero_bit bm n \<Longrightarrow> bm j"
  using ffz_below[of 0 j bm n] by (simp add: find_first_zero_bit_def)

lemma find_first_zero_bit_clear: "find_first_zero_bit bm n < n \<Longrightarrow> \<not> bm (find_first_zero_bit bm n)"
  using ffz_clear[of bm 0 n] by (simp add: find_first_zero_bit_def)

abbreviation name_res :: "bin_attribute list \<Rightarrow> kres multiset" where
  "name_res as \<equiv> mset (map (\<lambda>a. Kmem (attr_name_ptr a)) as)"

abbreviation file_res :: "bin_attribute list \<Rightarrow> kres multiset" where
  "file_res as \<equiv> mset (map (\<lambda>a. SysfsFile (attr_name_ptr a)) as)"

lemma length_iface_name: "i < 10000 \<Longrightarrow> length (show_arg (FD4 i)) = 4"
  using length_show_base[of 10 i 3] by (simp add: zero_pad_def)

lemma iface_name_no_NUL: "NUL \<notin> set (show_arg (FD4 i))"
  by (simp add: zero_pad_def)

lemma iface_name_fits:
  "i < 10000 \<Longrightarrow> \<exists>nm. strcpy (replicate 8 NUL) (show_arg (FD4 i)) = Some nm"
  unfolding strcpy_def
  by (intro store_at_fits) (simp add: iface_name_no_NUL length_iface_name del: show_arg.simps)

lemma make_ifaces_returns:
  "length done + n \<le> 10000 \<Longrightarrow> \<exists>r s'. make_ifaces kzn final n done s = Some (r, s')"
proof (induction n arbitrary: "done" s)
  case (Suc n)
  obtain nm where nm: "strcpy (replicate 8 NUL) (show_arg (FD4 (length done))) = Some nm"
    using iface_name_fits[of "length done"] Suc.prems by auto
  show ?case
  proof (cases "kzn (length done) = NULL")
    case False
    then show ?thesis
      using Suc.prems Suc.IH[of "done @ [final\<lparr>attr_name := cstr nm,
        attr_name_ptr := kzn (length done), attr_size := 4096\<rparr>]"]
      by (simp add: Let_def nm del: show_arg.simps)
  qed simp
qed simp

lemma make_ifaces_ok:
  assumes "make_ifaces kzn final n done s = Some (Some as, s')"
    and "\<forall>a \<in> set done. attr_name_ptr a \<noteq> NULL"
  shows "\<exists>new. as = done @ new \<and> length new = n \<and> led_only s s' \<and>
    mset (held (led s')) = mset (held (led s)) + name_res new \<and> bad (led s') = bad (led s) \<and>
    (\<forall>a \<in> set as. attr_name_ptr a \<noteq> NULL)"
  using assms
proof (induction n arbitrary: "done" s)
  case 0
  then show ?case by simp
next
  case (Suc n)
  let ?i = "length done"
  from Suc.prems(1) obtain nm where kz: "kzn ?i \<noteq> NULL"
    and rec: "make_ifaces kzn final n
       (done @ [final\<lparr>attr_name := cstr nm, attr_name_ptr := kzn ?i, attr_size := 4096\<rparr>])
       (k_acquire (Kmem (kzn ?i)) s) = Some (Some as, s')"
    by (auto simp: Let_def split: if_splits simp del: show_arg.simps)
  from Suc.IH[OF rec] kz Suc.prems(2) obtain new where
    "as = done @ final\<lparr>attr_name := cstr nm, attr_name_ptr := kzn ?i, attr_size := 4096\<rparr> # new"
    "length new = n" "led_only (k_acquire (Kmem (kzn ?i)) s) s'"
    "mset (held (led s')) = mset (held (led (k_acquire (Kmem (kzn ?i)) s))) + name_res new"
    "bad (led s') = bad (led s)" "\<forall>a \<in> set as. attr_name_ptr a \<noteq> NULL"
    by (auto simp: ledger_simps)
  then show ?case
    using led_only_trans[OF led_only_upd]
    by (intro exI[of _ "final\<lparr>attr_name := cstr nm, attr_name_ptr := kzn ?i, attr_size := 4096\<rparr> # new"])
       (auto simp: ledger_simps)
qed

lemma create_iface_files_ok:
  assumes "create_iface_files r i as s = (0, s')"
  shows "led_only s s' \<and> mset (held (led s')) = mset (held (led s)) + file_res as \<and>
    bad (led s') = bad (led s)"
  using assms
proof (induction r i as s rule: create_iface_files.induct)
  case (2 r i a as s)
  then show ?case
    using led_only_trans[OF led_only_upd] by (auto simp: ledger_simps split: if_splits)
qed simp

lemma remove_ifaces_led:
  assumes "mset (held (led s)) = B + name_res as + file_res as"
    and "\<forall>a \<in> set as. attr_name_ptr a \<noteq> NULL"
  shows "led_only s (remove_ifaces as s) \<and> mset (held (led (remove_ifaces as s))) = B \<and>
    bad (led (remove_ifaces as s)) = bad (led s)"
  using assms
proof (induction as arbitrary: s)
  case (Cons a as)
  let ?s = "k_kfree (attr_name_ptr a) (quiet_release (SysfsFile (attr_name_ptr a)) s)"
  have "SysfsFile (attr_name_ptr a) \<in># mset (held (led s))" using Cons.prems(1) by simp
  then have q: "quiet_release (SysfsFile (attr_name_ptr a)) s = k_release (SysfsFile (attr_name_ptr a)) s"
    by (simp add: quiet_release_def)
  have "mset (held (led ?s)) = B + name_res as + file_res as" "bad (led ?s) = bad (led s)"
    using Cons.prems by (simp_all add: q ledger_simps)
  with Cons.IH[of ?s] Cons.prems show ?case
    using led_only_trans[OF led_only_upd] by (auto simp: q)
qed simp

lemma publish_ok:
  assumes "publish_chrdev env fops own final p devt d s = (0, d', s')"
    and "\<forall>e. r_device_create env = Inl e \<longrightarrow> e \<noteq> 0"
  obtains dev nm ca where "r_device_create env = Inr dev" "r_interfaces env \<noteq> NULL"
    "d' = d\<lparr>cdev_ops := fops, cdev_dev := devt, cdev_count := 1, cdev_name := nm,
            this_device := Inr dev, sysCoreStructure := ca, sysInterfaces := r_interfaces env\<rparr>"
    "led_only s s'" "bad (led s') = bad (led s)"
    "mset (held (led s')) = mset (held (led s)) + file_res (iface_attrs d) +
       {#Cdev p, ClassDev dev, SysfsFile dev, SysfsDir (r_interfaces env)#}"
proof -
  let ?nm = "format [Arg (FS own), Lit ''_'', Arg (FX2 (unat (word_of_int (cd_instance d) :: uint32)))]"
  obtain dev where dev: "r_device_create env = Inr dev" "r_interfaces env \<noteq> NULL"
    using assms by (auto simp: publish_chrdev_def Let_def split: if_splits sum.splits)
  let ?s = "k_acquire (SysfsDir (r_interfaces env)) (k_acquire (SysfsFile dev)
      (k_acquire (ClassDev dev) (k_acquire (Cdev p) s)))"
  from assms(1) dev have files: "create_iface_files (r_iface_file env) 0 (iface_attrs d) ?s = (0, s')"
    and d': "d' = d\<lparr>cdev_ops := fops, cdev_dev := devt, cdev_count := 1, cdev_name := ?nm,
            this_device := Inr dev,
            sysCoreStructure := Some (final\<lparr>attr_name := ''core'', attr_name_ptr := NULL, attr_size := 4096\<rparr>),
            sysInterfaces := r_interfaces env\<rparr>"
    by (auto simp: publish_chrdev_def Let_def split: if_splits prod.splits)
  have "led_only s ?s" by simp
  then have "led_only s s'"
    using create_iface_files_ok[OF files] led_only_trans by blast
  moreover have "mset (held (led s')) = mset (held (led s)) + file_res (iface_attrs d) +
       {#Cdev p, ClassDev dev, SysfsFile dev, SysfsDir (r_interfaces env)#}"
    "bad (led s') = bad (led s)"
    using create_iface_files_ok[OF files] by (simp_all add: ledger_simps)
  ultimately show thesis using that dev d' by blast
qed

lemma find_bus_owned:
  assumes "genz_find_bus_by_PCIslotnum kz da d s = (p, s')"
  obtains new where "genz_bus_list s' = genz_bus_list s @ new"
    "mset (held (led s')) = mset (held (led s)) + owned new" "bad (led s') = bad (led s)"
  using assms
proof (cases rule: find_bus_cases)
  case fail
  then show thesis using that[of "[]"] by (simp add: balanced_def)
next
  case (found b)
  then show thesis using that[of "[]"] by simp
next
  case created
  then show thesis using that[of "[\<lparr>bus_addr = kz, bus_id = slot_id d\<rparr>]"] by (simp add: ledger_simps)
qed

lemma find_bus_genz_frame:
  assumes "genz_find_bus_by_PCIslotnum kz da d (s :: 'a genz_state_scheme) = (p, s')"
  shows "cores s' = cores s \<and> chrdevs s' = chrdevs s \<and> bridge_major s' = bridge_major s \<and>
    bridge_minor_bitmap s' = bridge_minor_bitmap s"
  using assms
  by (auto simp: genz_find_bus_by_PCIslotnum_def Let_def split: if_splits option.splits)

lemma register_locked_ok:
  assumes "register_locked env core_p core fops own fpd final slot p d s = (0, d', s')"
    and "\<forall>e. r_device_create env = Inl e \<longrightarrow> e \<noteq> 0"
  obtains m M dev nm ca par new where
    "m = find_first_zero_bit (bridge_minor_bitmap s) GENZ_MINORBITS" "m < GENZ_MINORBITS"
    "M = bridge_major s'" "bridge_major s \<noteq> 0 \<longrightarrow> M = bridge_major s"
    "bridge_minor_bitmap s' = (bridge_minor_bitmap s)(m := True)"
    "par \<noteq> NULL" "r_device_create env = Inr dev" "r_interfaces env \<noteq> NULL"
    "d' = d\<lparr>cd_parent := par, cd_core := core_p, file_private_data := fpd,
       cd_genz_class := genz_class_getter (CCE core),
       cd_cclass := genz_component_class_str ! unat (CCE core),
       cd_mode := 438, cd_instance := slot, cdev_ops := fops, cdev_dev := (M, of_nat m),
       cdev_count := 1, cdev_name := nm, this_device := Inr dev, sysCoreStructure := ca,
       sysInterfaces := r_interfaces env\<rparr>"
    "cores s' = cores s" "chrdevs s' = chrdevs s" "bad (led s') = bad (led s)"
    "genz_bus_list s' = genz_bus_list s @ new"
    "mset (held (led s')) = mset (held (led s)) + owned new + file_res (iface_attrs d) +
       {#ChrdevRegion M (of_nat m), Cdev p, ClassDev dev, SysfsFile dev, SysfsDir (r_interfaces env)#}"
proof -
  let ?m = "find_first_zero_bit (bridge_minor_bitmap s) GENZ_MINORBITS"
  let ?M = "if bridge_major s = 0 then alloc_major env else bridge_major s"
  let ?s1 = "s\<lparr>bridge_major := ?M, led := acquire (ChrdevRegion ?M (of_nat ?m)) (led s),
     bridge_minor_bitmap := (bridge_minor_bitmap s)(?m := True)\<rparr>"
  let ?d = "\<lambda>par. d\<lparr>cd_parent := par, cd_core := core_p, file_private_data := fpd,
     cd_genz_class := genz_class_getter (CCE core),
     cd_cclass := genz_component_class_str ! unat (CCE core), cd_mode := 438, cd_instance := slot\<rparr>"
  obtain par s2 where bus: "genz_find_bus_by_PCIslotnum (kz_bus env) (r_bus_add env) slot ?s1 = (par, s2)"
    by fastforce
  have m: "?m < GENZ_MINORBITS" and par: "par \<noteq> NULL"
    and pub: "publish_chrdev env fops own final p (?M, of_nat ?m) (?d par) s2 = (0, d', s')"
    using assms(1) bus find_bus_genz_frame[OF bus]
    by (auto simp: register_locked_def Let_def split: if_splits)
  obtain new where "genz_bus_list s2 = genz_bus_list ?s1 @ new"
    "mset (held (led s2)) = mset (held (led ?s1)) + owned new" "bad (led s2) = bad (led ?s1)"
    using bus by (rule find_bus_owned)
  note new = this
  from pub assms(2) show thesis
  proof (cases rule: publish_ok)
    case (1 dev nm ca)
    then show thesis
      using that[of ?m ?M par dev ca nm new] m par find_bus_genz_frame[OF bus] new
      by (elim led_onlyE) (simp add: ledger_simps)
  qed
qed

lemma register_inv:
  assumes "genz_register_char_device env cp fops own fpd attr slot s = Some (Inr p, s')"
  obtains core as s3 d s4 where "cores s cp = Some core" "is_bridge (CCE core)"
    "p = kz_chrdev env" "p \<noteq> NULL" "kz_attrs env \<noteq> NULL"
    "make_ifaces (kz_name env) (final_attr attr p) (unat (MaxInterface core)) []
       (k_acquire (Kmem (kz_attrs env)) (k_acquire (Kmem p) s)) = Some (Some as, s3)"
    "register_locked env cp core fops own fpd (final_attr attr p) slot p
       (zero_chrdev\<lparr>iface_attrs_ptr := kz_attrs env, iface_attrs := as\<rparr>) s3 = (0, d, s4)"
    "s' = s4\<lparr>chrdevs := (chrdevs s4)(p \<mapsto> d)\<rparr>"
proof -
  let ?p = "kz_chrdev env"
  let ?s2 = "k_acquire (Kmem (kz_attrs env)) (k_acquire (Kmem ?p) s)"
  obtain core where core: "cores s cp = Some core"
    using assms by (auto simp: genz_register_char_device_def)
  then have ok: "is_bridge (CCE core)" "MaxInterface core \<noteq> 0" "\<not> 1024 < MaxInterface core"
    "\<not> MaxCTL core < 8192" "?p \<noteq> NULL" "kz_attrs env \<noteq> NULL"
    using assms by (auto simp: genz_register_char_device_def Let_def split: if_splits)
  obtain ifs s3 where ifs: "make_ifaces (kz_name env) (final_attr attr ?p)
      (unat (MaxInterface core)) [] ?s2 = Some (ifs, s3)"
    using assms core ok by (auto simp: genz_register_char_device_def Let_def)
  obtain as where as: "ifs = Some as"
    using assms core ok ifs by (cases ifs) (auto simp: genz_register_char_device_def Let_def)
  obtain ret d s4 where lck: "register_locked env cp core fops own fpd (final_attr attr ?p) slot ?p
      (zero_chrdev\<lparr>iface_attrs_ptr := kz_attrs env, iface_attrs := as\<rparr>) s3 = (ret, d, s4)"
    using prod_cases3 by blast
  have "register_up_and_out ?p ret d s4 = Some (Inr p, s')"
    using assms core ok ifs as lck by (simp add: genz_register_char_device_def Let_def)
  then have "ret = 0" "p = ?p" "s' = s4\<lparr>chrdevs := (chrdevs s4)(p \<mapsto> d)\<rparr>"
    by (auto simp: register_up_and_out_def Let_def split: if_splits)
  then show thesis using that core ok ifs as lck by simp
qed

lemma register_ok:
  assumes "genz_register_char_device env cp fops own fpd attr slot s = Some (Inr p, s')"
    and "\<forall>e. r_device_create env = Inl e \<longrightarrow> e \<noteq> 0"
  obtains core d m M dev new where
    "cores s cp = Some core" "is_bridge (CCE core)" "p = kz_chrdev env" "p \<noteq> NULL"
    "m = find_first_zero_bit (bridge_minor_bitmap s) GENZ_MINORBITS" "m < GENZ_MINORBITS"
    "M = bridge_major s'" "bridge_major s \<noteq> 0 \<longrightarrow> M = bridge_major s"
    "bridge_minor_bitmap s' = (bridge_minor_bitmap s)(m := True)"
    "chrdevs s' = (chrdevs s)(p \<mapsto> d)" "cores s' = cores s"
    "cd_core d = cp" "file_private_data d = fpd" "cdev_ops d = fops" "cd_instance d = slot"
    "cdev_dev d = (M, of_nat m)" "cd_genz_class d = genz_class_getter (CCE core)"
    "cd_cclass d = genz_component_class_str ! unat (CCE core)"
    "this_device d = Inr dev" "r_device_create env = Inr dev" "sysInterfaces d \<noteq> NULL"
    "length (iface_attrs d) = unat (MaxInterface core)" "iface_attrs_ptr d \<noteq> NULL"
    "\<forall>a \<in> set (iface_attrs d). attr_name_ptr a \<noteq> NULL"
    "genz_bus_list s' = genz_bus_list s @ new" "bad (led s') = bad (led s)"
    "mset (held (led s')) = mset (held (led s)) + owned new + name_res (iface_attrs d) +
       file_res (iface_attrs d) +
       {#Kmem p, Kmem (iface_attrs_ptr d), ChrdevRegion M (of_nat m), Cdev p, ClassDev dev,
         SysfsFile dev, SysfsDir (sysInterfaces d)#}"
proof -
  obtain core as s3 d s4 where core: "cores s cp = Some core" "is_bridge (CCE core)"
    and kz: "p = kz_chrdev env" "p \<noteq> NULL" "kz_attrs env \<noteq> NULL"
    and ifs: "make_ifaces (kz_name env) (final_attr attr p) (unat (MaxInterface core)) []
       (k_acquire (Kmem (kz_attrs env)) (k_acquire (Kmem p) s)) = Some (Some as, s3)"
    and lck: "register_locked env cp core fops own fpd (final_attr attr p) slot p
       (zero_chrdev\<lparr>iface_attrs_ptr := kz_attrs env, iface_attrs := as\<rparr>) s3 = (0, d, s4)"
    and s': "s' = s4\<lparr>chrdevs := (chrdevs s4)(p \<mapsto> d)\<rparr>"
    using assms(1) by (rule register_inv)
  from make_ifaces_ok[OF ifs] have as: "length as = unat (MaxInterface core)"
    "\<forall>a \<in> set as. attr_name_ptr a \<noteq> NULL" and led3: "bad (led s3) = bad (led s)"
    "mset (held (led s3)) = mset (held (led s)) + name_res as + {#Kmem p, Kmem (kz_attrs env)#}"
    and fr3: "led_only s s3"
    using led_only_trans[OF led_only_upd] kz by (auto simp: ledger_simps)
  from lck assms(2) show thesis
  proof (cases rule: register_locked_ok)
    case (1 m M dev nm ca par new)
    then show thesis
      using fr3
      by (intro that[of core m M d dev new])
         (auto elim!: led_onlyE simp: core kz(1)[symmetric] kz(2,3) s' as led3 zero_chrdev_def)
  qed
qed

text \<open>What unregistering gives back, for a device that was registered completely.\<close>

lemma unregister_registered:
  assumes "p \<noteq> NULL" "chrdevs s p = Some d" "cores s (cd_core d) = Some core"
    and "length (iface_attrs d) = unat (MaxInterface core)" "iface_attrs_ptr d \<noteq> NULL"
    and "\<forall>a \<in> set (iface_attrs d). attr_name_ptr a \<noteq> NULL"
    and "this_device d = Inr dev" "dev \<noteq> NULL" "sysInterfaces d \<noteq> NULL"
    and "mset (held (led s)) = B + name_res (iface_attrs d) + file_res (iface_attrs d) +
       {#Kmem p, Kmem (iface_attrs_ptr d), ClassDev dev, SysfsFile dev, SysfsDir (sysInterfaces d)#}"
  obtains l where
    "genz_unregister_char_device p s = Some (s\<lparr>led := l, chrdevs := (chrdevs s)(p := None)\<rparr>)"
    "mset (held l) = B" "bad l = bad (led s)"
proof -
  let ?B = "B + {#Kmem p, Kmem (iface_attrs_ptr d), ClassDev dev, SysfsFile dev, SysfsDir (sysInterfaces d)#}"
  have "mset (held (led s)) = ?B + name_res (iface_attrs d) + file_res (iface_attrs d)"
    using assms(10) by simp
  from remove_ifaces_led[OF this assms(6)]
  have r: "led_only s (remove_ifaces (iface_attrs d) s)"
    "mset (held (led (remove_ifaces (iface_attrs d) s))) = ?B"
    "bad (led (remove_ifaces (iface_attrs d) s)) = bad (led s)" by auto
  from r(1) obtain l where l: "remove_ifaces (iface_attrs d) s = s\<lparr>led := l\<rparr>" by (rule led_onlyE)
  have in_held: "r \<in> set (held x) \<longleftrightarrow> holds r x" for r x by simp
  have "genz_unregister_char_device p s =
     Some (s\<lparr>led := release (Kmem p) (release (ClassDev dev) (release (SysfsFile dev)
        (release (SysfsDir (sysInterfaces d)) (release (Kmem (iface_attrs_ptr d)) l)))),
        chrdevs := (chrdevs s)(p := None)\<rparr>)"
    using assms(1-9) r(2) l
    by (simp add: genz_unregister_char_device_def quiet_release_def in_held ledger_simps
        del: set_mset_mset)
  then show thesis
    using that r(2,3) l by (simp add: ledger_simps)
qed

lemma make_ifaces_alloc:
  assumes "\<forall>i < length done + n. kzn i \<noteq> NULL" "length done + n \<le> 10000"
  shows "\<exists>as s'. make_ifaces kzn final n done s = Some (Some as, s')"
  using assms
proof (induction n arbitrary: "done" s)
  case (Suc n)
  obtain nm where "strcpy (replicate 8 NUL) (show_arg (FD4 (length done))) = Some nm"
    using iface_name_fits[of "length done"] Suc.prems by auto
  then show ?case
    using Suc.prems Suc.IH[of "done @ [final\<lparr>attr_name := cstr nm,
      attr_name_ptr := kzn (length done), attr_size := 4096\<rparr>]"]
    by (simp add: Let_def del: show_arg.simps)
qed simp

lemma find_first_zero_bit_full: "\<forall>i < n. bm i \<Longrightarrow> find_first_zero_bit bm n = n"
  using find_first_zero_bit_le[of bm n] find_first_zero_bit_clear[of bm n]
  by (auto simp: le_less)

lemma unregister_bare:
  assumes "p \<noteq> NULL" "chrdevs s p = Some d" "sysInterfaces d = NULL" "this_device d = Inr NULL"
  shows "genz_unregister_char_device p s =
    Some (s\<lparr>led := release (Kmem p) (led s), chrdevs := (chrdevs s)(p := None)\<rparr>)"
  using assms by (simp add: genz_unregister_char_device_def ledger_simps)

section \<open>Properties\<close>

text \<open>An initial state of the module, a valid bridge core structure, and a kernel that grants every
  request; the witnesses below evaluate on them.\<close>

definition bridge_core :: genz_core_structure where
  "bridge_core = zero_core\<lparr>CCE := cce_num DISCRETE_BRIDGE, MaxInterface := 2, MaxCTL := 8192,
     comp_dest_table := 0x9100\<rparr>"

definition genz_state0 :: genz_state where
  "genz_state0 = \<lparr>led = \<lparr>held = [], bad = []\<rparr>, genz_bus_list = [], genz_root_device = 0x100,
     genz_devices = Map.empty, the_one = NULL, cores = [0x9000 \<mapsto> bridge_core], chrdevs = Map.empty,
     bridge_minor_bitmap = (\<lambda>_. False), bridge_major = 0\<rparr>"

definition good_chrdev_env :: chrdev_env where
  "good_chrdev_env = \<lparr>kz_chrdev = 0x4000, kz_attrs = 0x5000, kz_name = (\<lambda>i. 0x6000 + of_nat (8 * i)),
     r_register_region = 0, r_alloc_region = 0, alloc_major = 240, kz_bus = 0x1000, r_bus_add = 0,
     r_set_name = 0, r_cdev_add = 0, r_device_create = Inr 0x7000, r_core_file = 0,
     r_interfaces = 0x8000, r_iface_file = (\<lambda>_. 0)\<rparr>"

definition plain_attr :: bin_attribute where
  "plain_attr = \<lparr>attr_name = [], attr_name_ptr = NULL, attr_size = 0, attr_private = NULL,
     attr_read = No_fn, attr_write = No_fn, attr_mmap = No_fn\<rparr>"

lemma good_registration:
  "\<exists>s'. genz_register_char_device good_chrdev_env 0x9000 0xF000 ''fee_bridge'' 0xA000 plain_attr 4
     genz_state0 = Some (Inr 0x4000, s')"
proof -
  have "map_option fst (genz_register_char_device good_chrdev_env 0x9000 0xF000 ''fee_bridge'' 0xA000
     plain_attr 4 genz_state0) = Some (Inr 0x4000)" by code_simp
  then show ?thesis by auto
qed



text \<open>C34: unregistering a registered device is total, frees the structure and takes down the sysfs
  files and the class device without a bad release; what it does not give back is exactly the device
  number region, the \<open>cdev\<close> that still lives in the freed structure, and the minor number.\<close>

theorem unregister_residue:
  assumes "genz_register_char_device env cp fops own fpd attr slot s = Some (Inr p, s1)"
    and "\<forall>e. r_device_create env = Inl e \<longrightarrow> e \<noteq> 0" and "r_device_create env \<noteq> Inr NULL"
  shows "\<exists>s2 new m. genz_unregister_char_device p s1 = Some s2 \<and> chrdevs s2 p = None \<and>
    genz_bus_list s2 = genz_bus_list s @ new \<and> bad (led s2) = bad (led s) \<and>
    mset (held (led s2)) = mset (held (led s)) + owned new +
      {#ChrdevRegion (bridge_major s1) (of_nat m), Cdev p#} \<and>
    bridge_minor_bitmap s2 m \<and> \<not> bridge_minor_bitmap s m"
  using assms(1,2)
proof (cases rule: register_ok)
  case (1 core d m M dev new)
  have "mset (held (led s1)) = (mset (held (led s)) + owned new +
      {#ChrdevRegion M (of_nat m), Cdev p#}) + name_res (iface_attrs d) + file_res (iface_attrs d) +
      {#Kmem p, Kmem (iface_attrs_ptr d), ClassDev dev, SysfsFile dev, SysfsDir (sysInterfaces d)#}"
    using 1 by simp
  moreover have "chrdevs s1 p = Some d" "cores s1 (cd_core d) = Some core" "dev \<noteq> NULL"
    using 1 assms(3) by simp_all
  ultimately obtain l where l:
    "genz_unregister_char_device p s1 = Some (s1\<lparr>led := l, chrdevs := (chrdevs s1)(p := None)\<rparr>)"
    "mset (held l) = mset (held (led s)) + owned new + {#ChrdevRegion M (of_nat m), Cdev p#}"
    "bad l = bad (led s1)"
    using unregister_registered[OF 1(4) _ _ 1(22) 1(23) 1(24) 1(19) _ 1(21)] by metis
  have "\<not> bridge_minor_bitmap s m" using 1(5,6) find_first_zero_bit_clear by blast
  with l 1(7,9,25,26) show ?thesis
    by (intro exI[of _ "s1\<lparr>led := l, chrdevs := (chrdevs s1)(p := None)\<rparr>"] exI[of _ new] exI[of _ m]) simp
qed

theorem unregister_residue_witness:
  "\<exists>s1 s2 new m. genz_register_char_device good_chrdev_env 0x9000 0xF000 ''fee_bridge'' 0xA000
      plain_attr 4 genz_state0 = Some (Inr 0x4000, s1) \<and>
    genz_unregister_char_device 0x4000 s1 = Some s2 \<and> chrdevs s2 0x4000 = None \<and>
    genz_bus_list s2 = genz_bus_list genz_state0 @ new \<and> bad (led s2) = bad (led genz_state0) \<and>
    mset (held (led s2)) = mset (held (led genz_state0)) + owned new +
      {#ChrdevRegion (bridge_major s1) (of_nat m), Cdev 0x4000#} \<and>
    bridge_minor_bitmap s2 m \<and> \<not> bridge_minor_bitmap genz_state0 m"
proof -
  obtain s1 where r: "genz_register_char_device good_chrdev_env 0x9000 0xF000 ''fee_bridge'' 0xA000
      plain_attr 4 genz_state0 = Some (Inr 0x4000, s1)"
    using good_registration by blast
  have "\<forall>e. r_device_create good_chrdev_env = Inl e \<longrightarrow> e \<noteq> 0"
    "r_device_create good_chrdev_env \<noteq> Inr NULL" by (simp_all add: good_chrdev_env_def)
  from unregister_residue[OF r this] r show ?thesis by blast
qed

text \<open>C33: the bitmap of minor numbers has room for \<open>MAXMINORS\<close> bits, but the search stops after
  \<open>GENZ_MINORBITS\<close>, the number of bits in a minor: with the first 14 minors taken every further
  registration fails with \<open>-EDOM\<close>, although 16370 bits are clear.\<close>

theorem minor_numbers_exhausted:
  assumes "\<forall>i < 14. bridge_minor_bitmap s i"
    and "cores s cp = Some core" "is_bridge (CCE core)" "MaxInterface core \<noteq> 0"
    and "MaxInterface core \<le> 1024" "8192 \<le> MaxCTL core"
    and "kz_chrdev env \<noteq> NULL" "kz_attrs env \<noteq> NULL" "\<forall>i < 1024. kz_name env i \<noteq> NULL"
  shows "\<exists>s'. genz_register_char_device env cp fops own fpd attr slot s = Some (Inl (err EDOM), s') \<and>
    bridge_minor_bitmap s' = bridge_minor_bitmap s \<and> 14 < MAXMINORS"
proof -
  let ?p = "kz_chrdev env"
  let ?s2 = "k_acquire (Kmem (kz_attrs env)) (k_acquire (Kmem ?p) s)"
  let ?n = "unat (MaxInterface core)"
  have n: "?n \<le> 1024" using assms(5) by (simp add: word_le_nat_alt)
  have no_err: "\<not> 1024 < MaxInterface core" "\<not> MaxCTL core < 8192" using assms(5,6) by simp_all
  obtain as s3 where ifs: "make_ifaces (kz_name env) (final_attr attr ?p) ?n [] ?s2 = Some (Some as, s3)"
    using make_ifaces_alloc[of "[]" ?n "kz_name env" "final_attr attr ?p" ?s2] assms(9) n by auto
  have "led_only s s3"
    using make_ifaces_ok[OF ifs] led_only_trans[OF led_only_upd] by auto
  then obtain l where s3: "s3 = s\<lparr>led := l\<rparr>" by (rule led_onlyE)
  let ?d = "zero_chrdev\<lparr>iface_attrs_ptr := kz_attrs env, iface_attrs := as\<rparr>"
  have full: "find_first_zero_bit (bridge_minor_bitmap s) GENZ_MINORBITS = GENZ_MINORBITS"
    using find_first_zero_bit_full assms(1) by (simp add: GENZ_MINORBITS_def)
  have lck: "register_locked env cp core fops own fpd (final_attr attr ?p) slot ?p ?d s3 = (err EDOM, ?d, s3)"
    by (simp add: register_locked_def s3 full)
  have "genz_register_char_device env cp fops own fpd attr slot s = register_up_and_out ?p (err EDOM) ?d s3"
    using assms(2-4,7,8) no_err ifs lck by (simp add: genz_register_char_device_def Let_def)
  also have "\<dots> = Some (Inl (err EDOM), s\<lparr>led := release (Kmem ?p) l, chrdevs := (chrdevs s)(?p := None)\<rparr>)"
    using assms(7) by (simp add: register_up_and_out_def unregister_bare zero_chrdev_def s3)
  finally show ?thesis by (simp add: MAXMINORS_def GENZ_MINORBITS_def)
qed

theorem minor_numbers_exhausted_witness:
  "\<exists>s'. genz_register_char_device good_chrdev_env 0x9000 0xF000 ''fee_bridge'' 0xA000 plain_attr 4
      (genz_state0\<lparr>bridge_minor_bitmap := (\<lambda>i. i < 14)\<rparr>) = Some (Inl (err EDOM), s') \<and>
    bridge_minor_bitmap s' = (\<lambda>i. i < 14) \<and> 14 < MAXMINORS"
proof -
  let ?s = "genz_state0\<lparr>bridge_minor_bitmap := (\<lambda>i. i < 14)\<rparr>"
  have "cores ?s 0x9000 = Some bridge_core" by (simp add: genz_state0_def)
  moreover have "\<forall>i < 1024. kz_name good_chrdev_env i \<noteq> NULL"
  proof (intro allI impI)
    fix i :: nat
    assume "i < 1024"
    then have "unat (0x6000 + of_nat (8 * i) :: uint64) = 0x6000 + 8 * i"
      by (simp add: unat_word_ariths unat_of_nat)
    then have "(0x6000 + of_nat (8 * i) :: uint64) \<noteq> 0" by (metis add_is_0 unat_0 zero_neq_numeral)
    then show "kz_name good_chrdev_env i \<noteq> NULL" by (simp add: good_chrdev_env_def)
  qed
  ultimately show ?thesis
    using minor_numbers_exhausted[where s = ?s and cp = "0x9000" and core = bridge_core
        and env = good_chrdev_env and fops = "0xF000" and own = "''fee_bridge''" and fpd = "0xA000"
        and attr = plain_attr and slot = 4]
    by (simp add: is_bridge_def bridge_core_def zero_core_def good_chrdev_env_def)
qed

text \<open>a core structure that was created can be destroyed, and the two together leave the ledger as
  it was; an error of the creation leaves nothing behind.\<close>

lemma core_structure_lifecycle:
  assumes "genz_core_structure_create kz kzt cce s = Some (r, s1)"
  shows "case r of
      Inl e \<Rightarrow> balanced (led s) (led s1) \<and> (e = err EINVAL \<or> e = err ENOMEM)
    | Inr p \<Rightarrow> \<exists>s2. genz_core_structure_destroy p s1 = Some s2 \<and> balanced (led s) (led s2) \<and> cores s2 p = None"
proof (cases r)
  case (Inl e)
  with assms show ?thesis using core_create_error_balanced by simp
next
  case (Inr p)
  with assms core_create_ok[of kz kzt cce s p s1] have ok: "p = kz" "p \<noteq> NULL" "kzt \<noteq> NULL"
    "cores s1 p = Some (zero_core\<lparr>CCE := cce, comp_dest_table := kzt\<rparr>)"
    "led s1 = acquire (Kmem kzt) (acquire (Kmem p) (led s))" by auto
  from core_destroy_led[OF ok(4,2)] ok Inr show ?thesis by (simp add: balanced_def ledger_simps)
qed

lemma core_structure_lifecycle_witness:
  "genz_core_structure_create 0x9000 0x9100 0x14 genz_state0 =
     Some (Inr 0x9000, snd (the (genz_core_structure_create 0x9000 0x9100 0x14 genz_state0))) \<and>
   (\<exists>s2. genz_core_structure_destroy 0x9000
           (snd (the (genz_core_structure_create 0x9000 0x9100 0x14 genz_state0))) = Some s2 \<and>
         balanced (led genz_state0) (led s2) \<and> cores s2 0x9000 = None)"
proof -
  let ?s1 = "snd (the (genz_core_structure_create 0x9000 0x9100 0x14 genz_state0))"
  have c: "genz_core_structure_create 0x9000 0x9100 0x14 genz_state0 = Some (Inr 0x9000, ?s1)"
    by (simp add: genz_core_structure_create_def is_bridge_def Let_def
        GENZ_CORE_STRUCTURE_ALLOC_COMP_DEST_TABLE_def)
  from core_structure_lifecycle[OF c] c show ?thesis by simp
qed

end
