(* ===== verification/Fee_Mailbox.thy ===== *)
theory Fee_Mailbox
  imports Genz_Device
begin

text \<open>
  The data of the FEE shim, \<open>shim_bridge/fee.h\<close>, and \<open>calculate_mailslot\<close> of
  \<open>shim_bridge/fee_adapter.c\<close>. The mailbox is the memory behind BAR 2 of every IVSHMEM device: a
  header with the globals, then one mailslot of \<open>slotsize\<close> bytes per client id. It is shared by
  all adapters, of this machine and of the others, so the state holds it once, by byte offset; an
  adapter sees it at the address where it mapped BAR 2. The lemmas show that the address computation
  never leaves the mailbox and never makes two slots overlap.
\<close>

section \<open>Data\<close>

record FEE_globals =
  slotsize :: uint64
  buf_offset :: uint64
  nClients :: uint64
  nEvents :: uint64
  server_id :: uint64

text \<open>\<open>nodename\<close> and \<open>cclass\<close> have 32 bytes; \<open>buf\<close> has the rest of the slot.\<close>

record FEE_mailslot =
  nodename :: bytes
  cclass :: bytes
  buflen :: uint64
  peer_id :: uint64
  last_responder :: uint64
  peer_SID :: uint64
  peer_CID :: uint64
  pad :: "uint64 list"
  buf :: bytes

text \<open>\<open>offsetof (struct FEE_mailslot, buf)\<close>: two names of 32 bytes and eight words.\<close>

definition MSG_OFFSET :: uint64 where "MSG_OFFSET = 128"

definition GENZ_FEE_SID_DEFAULT :: int where "GENZ_FEE_SID_DEFAULT = 27"
definition GENZ_FEE_SID_CID_IS_PEER_ID :: int where "GENZ_FEE_SID_CID_IS_PEER_ID = - 42"

record msix_entry =
  vector :: int
  entry :: uint16

text \<open>\<open>struct bridge_buffers\<close> of \<open>gf_bridge.h\<close>, with the addresses of its two allocations.\<close>

record bridge_buffers =
  bb_ptr :: addr
  wbuf_ptr :: addr
  wbuf :: bytes
  wbuf_mutex :: bool

record FEE_adapter =
  nr_users :: int
  pdev :: addr
  ad_slot :: int
  max_buflen :: uint64
  my_id :: uint16
  regs :: addr
  globals :: addr
  my_slot :: addr
  IRQ_private :: "(addr \<times> msix_entry list) option"
  incoming_slot :: addr
  incoming_slot_lock :: bool
  outgoing :: "bridge_buffers option"
  ad_core :: addr
  genz_chrdev :: errptr

text \<open>What the driver reads of a \<open>struct pci_dev\<close>, and the register \<open>IVPosition\<close> of its BAR 0.\<close>

record pci_dev =
  drvdata :: addr
  devfn :: nat
  revision :: nat
  msix_cap :: nat
  bar1_start :: nat
  bar1_name :: string
  pci_slot :: "nat option"
  pci_slot_name :: string
  IVPosition :: uint32

text \<open>
  The module's state: the shared mailbox (\<open>glob\<close>, \<open>mail\<close>), the values written to the doorbell
  registers in order, each with the adapter whose register it was, the static \<open>longest\<close> of
  \<open>fee_IVSHMSG.c\<close>, the allocated adapters, \<open>FEE_adapter_list\<close> and the PCI devices.
\<close>

record fee_state = genz_state +
  glob :: FEE_globals
  mail :: "uint64 \<Rightarrow> FEE_mailslot"
  doorbells :: "(addr \<times> uint32) list"
  longest :: uint64
  adapters :: "addr \<rightharpoonup> FEE_adapter"
  FEE_adapter_list :: "addr list"
  pdevs :: "addr \<rightharpoonup> pci_dev"

section \<open>Access to the mailbox\<close>

text \<open>\<open>adapter->globals->...\<close> and \<open>slot->...\<close>: a NULL pointer is not dereferenced.\<close>

definition rd_globals :: "'a fee_state_scheme \<Rightarrow> FEE_adapter \<Rightarrow> FEE_globals option" where
  "rd_globals s A = (if globals A = NULL then None else Some (glob s))"

definition rd_slot :: "'a fee_state_scheme \<Rightarrow> FEE_adapter \<Rightarrow> addr \<Rightarrow> FEE_mailslot option" where
  "rd_slot s A p = (if p = NULL then None else Some (mail s (p - globals A)))"

definition wr_slot ::
  "FEE_adapter \<Rightarrow> addr \<Rightarrow> FEE_mailslot \<Rightarrow> 'a fee_state_scheme \<Rightarrow> 'a fee_state_scheme" where
  "wr_slot A p m s = s\<lparr>mail := (mail s)(p - globals A := m)\<rparr>"

definition wr_adapter ::
  "addr \<Rightarrow> FEE_adapter \<Rightarrow> 'a fee_state_scheme \<Rightarrow> 'a fee_state_scheme" where
  "wr_adapter ap A s = s\<lparr>adapters := (adapters s)(ap \<mapsto> A)\<rparr>"

text \<open>\<open>calculate_mailslot\<close>; NULL for a number that is no client and not the server.\<close>

definition calculate_mailslot ::
  "'a fee_state_scheme \<Rightarrow> FEE_adapter \<Rightarrow> uint32 \<Rightarrow> addr option" where
  "calculate_mailslot s A slotnum = do {
     G \<leftarrow> rd_globals s A;
     if (slotnum < 1 \<or> ucast slotnum > nClients G) \<and> ucast slotnum \<noteq> server_id G
     then Some NULL
     else Some (globals A + ucast slotnum * slotsize G)
   }"

section \<open>The layout of the mailbox\<close>

definition valid_id :: "FEE_globals \<Rightarrow> nat \<Rightarrow> bool" where
  "valid_id G n \<longleftrightarrow> (1 \<le> n \<and> n \<le> unat (nClients G)) \<or> n = unat (server_id G)"

definition last_id :: "FEE_globals \<Rightarrow> nat" where
  "last_id G = max (unat (nClients G)) (unat (server_id G))"

text \<open>The slot of a client id, as an offset into the mailbox.\<close>

definition slot_off :: "FEE_globals \<Rightarrow> nat \<Rightarrow> uint64" where
  "slot_off G n = of_nat n * slotsize G"

text \<open>What the server guarantees of the globals: the slots up to the last id fit into a file whose
  size is a 64-bit number, a slot is larger than its header, the server comes after the clients, and
  ids fit the 16 bits of a doorbell.\<close>

definition globals_ok :: "FEE_globals \<Rightarrow> bool" where
  "globals_ok G \<longleftrightarrow>
     buf_offset G = MSG_OFFSET \<and> buf_offset G < slotsize G \<and> nClients G < server_id G \<and>
     last_id G < 2 ^ 16 \<and> Suc (last_id G) * unat (slotsize G) < 2 ^ 64"

text \<open>The mailbox mapped at \<open>base\<close> does not wrap around the address space.\<close>

definition mapped_ok :: "addr \<Rightarrow> FEE_globals \<Rightarrow> bool" where
  "mapped_ok base G \<longleftrightarrow>
     base \<noteq> NULL \<and> unat base + Suc (last_id G) * unat (slotsize G) \<le> 2 ^ 64"

lemma valid_id_le: "valid_id G n \<Longrightarrow> n \<le> last_id G"
  by (auto simp: valid_id_def last_id_def)

lemma valid_id_pos: "globals_ok G \<Longrightarrow> valid_id G n \<Longrightarrow> 1 \<le> n"
  by (auto simp: valid_id_def globals_ok_def word_less_nat_alt)

lemma valid_id_server: "globals_ok G \<Longrightarrow> valid_id G n \<Longrightarrow> n \<le> unat (server_id G)"
  by (auto simp: valid_id_def globals_ok_def word_less_nat_alt)

lemma slot_off_unat:
  assumes "globals_ok G" "n \<le> last_id G"
  shows "unat (slot_off G n) = n * unat (slotsize G)"
proof -
  have "n * unat (slotsize G) \<le> last_id G * unat (slotsize G)" using assms(2) by simp
  also have "\<dots> < 2 ^ 64" using assms(1) by (simp add: globals_ok_def)
  finally have b: "n * unat (slotsize G) < 2 ^ 64" .
  have "n < 2 ^ 16" using assms by (simp add: globals_ok_def)
  then have "unat (of_nat n :: uint64) = n" by (simp add: unat_of_nat)
  with b show ?thesis by (simp add: slot_off_def unat_word_ariths)
qed

lemma slotsize_pos: "globals_ok G \<Longrightarrow> 128 < unat (slotsize G)"
  by (auto simp: globals_ok_def MSG_OFFSET_def word_less_nat_alt)

lemma slot_off_inj:
  assumes "globals_ok G" "n \<le> last_id G" "m \<le> last_id G"
  shows "slot_off G n = slot_off G m \<longleftrightarrow> n = m"
proof
  assume "slot_off G n = slot_off G m"
  then have "n * unat (slotsize G) = m * unat (slotsize G)"
    using slot_off_unat[OF assms(1,2)] slot_off_unat[OF assms(1,3)] by metis
  then show "n = m" using slotsize_pos[OF assms(1)] by simp
qed simp

lemma calculate_mailslot_eq:
  assumes "globals A \<noteq> NULL"
  shows "calculate_mailslot s A n =
    Some (if valid_id (glob s) (unat n) then globals A + slot_off (glob s) (unat n) else NULL)"
proof -
  have lo: "n < 1 \<longleftrightarrow> \<not> 1 \<le> unat n" by (simp add: word_less_nat_alt) linarith
  have hi: "ucast n > nClients (glob s) \<longleftrightarrow> \<not> unat n \<le> unat (nClients (glob s))"
    by (simp add: word_less_nat_alt c_conv not_le)
  have sv: "ucast n = server_id (glob s) \<longleftrightarrow> unat n = unat (server_id (glob s))"
    by (simp add: word_unat_eq_iff c_conv)
  have "((n < 1 \<or> ucast n > nClients (glob s)) \<and> ucast n \<noteq> server_id (glob s))
      \<longleftrightarrow> \<not> valid_id (glob s) (unat n)"
    unfolding lo hi sv valid_id_def by blast
  moreover have "ucast n * slotsize (glob s) = slot_off (glob s) (unat n)"
    by (simp add: slot_off_def)
  ultimately show ?thesis
    using assms by (simp add: calculate_mailslot_def rd_globals_def)
qed

lemma slot_addr_unat:
  assumes "globals_ok G" "mapped_ok base G" "n \<le> last_id G"
  shows "unat (base + slot_off G n) = unat base + n * unat (slotsize G)"
proof -
  have "unat base + n * unat (slotsize G) < unat base + Suc (last_id G) * unat (slotsize G)"
    using assms(3) slotsize_pos[OF assms(1)] by (simp add: add_strict_increasing)
  also have "\<dots> \<le> 2 ^ 64" using assms(2) by (simp add: mapped_ok_def)
  finally show ?thesis
    using slot_off_unat[OF assms(1,3)] by (simp add: unat_word_ariths)
qed

lemma slot_addr_nonnull:
  "globals_ok G \<Longrightarrow> mapped_ok base G \<Longrightarrow> n \<le> last_id G \<Longrightarrow> base + slot_off G n \<noteq> NULL"
  using slot_addr_unat[of G base n] by (auto simp: mapped_ok_def word_unat_eq_iff)

lemma mapped_nonnull: "mapped_ok base G \<Longrightarrow> base \<noteq> NULL"
  by (simp add: mapped_ok_def)

lemma rd_slot_off [simp]:
  "globals A + o1 \<noteq> NULL \<Longrightarrow> rd_slot s A (globals A + o1) = Some (mail s o1)"
  by (simp add: rd_slot_def)

lemma rd_slot_Some: "rd_slot s A p = Some m \<longleftrightarrow> p \<noteq> NULL \<and> m = mail s (p - globals A)"
  by (auto simp: rd_slot_def)

lemma rd_globals_Some: "rd_globals s A = Some G \<longleftrightarrow> globals A \<noteq> NULL \<and> G = glob s"
  by (auto simp: rd_globals_def)

lemma intervals_apart:
  fixes n m z :: nat
  assumes "n < m"
  shows "b + n * z + z \<le> b + m * z"
proof -
  have "Suc n * z \<le> m * z" using assms by (intro mult_right_mono) auto
  then show ?thesis by simp
qed

section \<open>Properties\<close>

text \<open>C11: \<open>calculate_mailslot\<close> returns a slot exactly for the ids 1 to \<open>nClients\<close> and the server's,
  and with the server's layout that slot starts \<open>n * slotsize\<close> bytes into the mailbox, lies inside it,
  never touches the globals in slot 0, and never overlaps the slot of another id.\<close>

theorem mailslot_layout:
  assumes "globals_ok (glob s)" and "mapped_ok (globals A) (glob s)"
  shows "\<exists>p. calculate_mailslot s A n = Some p \<and> (p \<noteq> NULL \<longleftrightarrow> valid_id (glob s) (unat n)) \<and>
    (p \<noteq> NULL \<longrightarrow>
       unat p = unat (globals A) + unat n * unat (slotsize (glob s)) \<and>
       unat (globals A) + unat (slotsize (glob s)) \<le> unat p \<and>
       unat p + unat (slotsize (glob s))
         \<le> unat (globals A) + Suc (last_id (glob s)) * unat (slotsize (glob s)) \<and>
       (\<forall>m q. m \<noteq> n \<longrightarrow> calculate_mailslot s A m = Some q \<longrightarrow> q \<noteq> NULL \<longrightarrow>
          unat p + unat (slotsize (glob s)) \<le> unat q \<or> unat q + unat (slotsize (glob s)) \<le> unat p))"
proof -
  let ?z = "unat (slotsize (glob s))" and ?b = "unat (globals A)"
  define sl where "sl n = (if valid_id (glob s) (unat n)
    then globals A + slot_off (glob s) (unat n) else NULL)" for n :: uint32
  have calc: "calculate_mailslot s A n = Some (sl n)" for n
    unfolding sl_def by (rule calculate_mailslot_eq[OF mapped_nonnull[OF assms(2)]])
  have nonnull: "sl n \<noteq> NULL \<longleftrightarrow> valid_id (glob s) (unat n)" for n
    using slot_addr_nonnull[OF assms valid_id_le] by (simp add: sl_def)
  have addr: "unat (sl n) = ?b + unat n * ?z" if "sl n \<noteq> NULL" for n
    using slot_addr_unat[OF assms valid_id_le] that nonnull by (simp add: sl_def)
  have pos: "1 * ?z \<le> unat n * ?z" if "sl n \<noteq> NULL" for n
    using valid_id_pos[OF assms(1)] that nonnull by (intro mult_right_mono) auto
  have upper: "unat n * ?z + ?z \<le> Suc (last_id (glob s)) * ?z" if "sl n \<noteq> NULL" for n
    using valid_id_le that nonnull by (simp add: mult_right_mono)
  have apart: "unat (sl n) + ?z \<le> unat (sl m) \<or> unat (sl m) + ?z \<le> unat (sl n)"
    if "m \<noteq> n" "sl n \<noteq> NULL" "sl m \<noteq> NULL" for m
  proof -
    have "unat m < unat n \<or> unat n < unat m" using that(1) by (simp add: word_unat_eq_iff neq_iff)
    then show ?thesis using addr[OF that(2)] addr[OF that(3)] intervals_apart by metis
  qed
  show ?thesis
    unfolding calc using nonnull addr pos upper apart by auto
qed

definition example_globals :: FEE_globals where
  "example_globals = \<lparr>slotsize = 512, buf_offset = 128, nClients = 14, nEvents = 16, server_id = 15\<rparr>"

lemma example_globals_ok: "globals_ok example_globals"
  by (simp add: globals_ok_def example_globals_def last_id_def MSG_OFFSET_def)

definition example_adapter :: FEE_adapter where
  "example_adapter = \<lparr>nr_users = 0, pdev = 0x100, ad_slot = 4, max_buflen = 384, my_id = 3,
     regs = 0x10000, globals = 0x20000, my_slot = 0x20600, IRQ_private = None, incoming_slot = NULL,
     incoming_slot_lock = False, outgoing = None, ad_core = NULL, genz_chrdev = Inr NULL\<rparr>"

definition blank_slot :: "nat \<Rightarrow> FEE_mailslot" where
  "blank_slot n = \<lparr>nodename = replicate 32 NUL, cclass = replicate 32 NUL, buflen = 0, peer_id = of_nat n,
     last_responder = 0, peer_SID = 0, peer_CID = 0, pad = [0, 0, 0], buf = replicate 384 NUL\<rparr>"

definition example_state :: fee_state where
  "example_state = \<lparr>led = \<lparr>held = [], bad = []\<rparr>, genz_bus_list = [], genz_root_device = 0x100,
     genz_devices = Map.empty, the_one = NULL, cores = [0x9000 \<mapsto> bridge_core], chrdevs = Map.empty,
     bridge_minor_bitmap = (\<lambda>_. False), bridge_major = 0, glob = example_globals,
     mail = (\<lambda>o1. blank_slot (unat o1 div 512)), doorbells = [], longest = 625,
     adapters = [0xA000 \<mapsto> example_adapter], FEE_adapter_list = [0xA000], pdevs = Map.empty\<rparr>"

theorem mailslot_layout_witness:
  "\<exists>p. calculate_mailslot example_state example_adapter 3 = Some p \<and> p \<noteq> NULL \<and>
    unat p = 0x20000 + 3 * 512 \<and> 0x20000 + 512 \<le> unat p \<and> unat p + 512 \<le> 0x20000 + 16 * 512"
proof -
  have g: "glob example_state = example_globals" by (simp add: example_state_def)
  have m: "mapped_ok (globals example_adapter) example_globals"
    by (simp add: mapped_ok_def example_adapter_def example_globals_def last_id_def)
  have v: "valid_id example_globals 3" by (simp add: valid_id_def example_globals_def)
  from mailslot_layout[of example_state example_adapter 3] m v show ?thesis
    by (auto simp: g example_globals_ok example_adapter_def) (simp_all add: example_globals_def last_id_def)
qed

end
