(* ===== verification/Fee_IVSHMSG.thy ===== *)
theory Fee_IVSHMSG
  imports Fee_Mailbox
begin

unbundle bit_operations_syntax

text \<open>
  The mailbox protocol, \<open>shim_bridge/fee_IVSHMSG.c\<close>: sending a message through the adapter's own
  mailslot (\<open>FEE_create_outgoing\<close>), waiting for one (\<open>FEE_await_incoming\<close>) and handing the sender's
  slot back (\<open>FEE_release_incoming\<close>). The invariant of the mailbox and of the adapters is stated here
  and shown to be kept; the results of every branch of a send are characterised, and at which look of the wait
  loop a send goes out. The locales \<open>wait_world\<close>, \<open>wait_relation\<close> and \<open>world_relation\<close> are the interface between a
  sender and the world it sleeps in.
\<close>

section \<open>Sending\<close>

text \<open>
  The world during a send: the tick rate, the tick count at entry and after each sleep, and what other
  processors, the peers and the interrupt handlers do to the state during the \<open>k\<close>-th sleep of so many
  milliseconds.
\<close>

record wait_env =
  HZ :: uint64
  jiffies :: "nat \<Rightarrow> uint64"
  sleep :: "nat \<Rightarrow> nat \<Rightarrow> fee_state \<Rightarrow> fee_state"

definition PRIOR_RESP_WAIT :: "wait_env \<Rightarrow> uint64" where "PRIOR_RESP_WAIT env = 5 * HZ env"
definition DELAY_MS_LOOP_MAX :: nat where "DELAY_MS_LOOP_MAX = 10"

definition time_before :: "uint64 \<Rightarrow> uint64 \<Rightarrow> bool" where
  "time_before a b \<longleftrightarrow> sint (a - b) < 0"

text \<open>The packed union: \<open>vector\<close> is the lower half of the doorbell word, \<open>peer\<close> the upper.\<close>

definition ringer :: "uint16 \<Rightarrow> uint16 \<Rightarrow> uint32" where
  "ringer peer vect = push_bit 16 (ucast peer) OR ucast vect"

text \<open>The loop that waits for the previous message to be taken: the time of the last look at the
  clock, and the state it leaves. No result: the clock never reaches the timeout, or a pointer is
  bad.\<close>

partial_function (option) wait_hw_ready ::
  "wait_env \<Rightarrow> addr \<Rightarrow> uint64 \<Rightarrow> nat \<Rightarrow> nat \<Rightarrow> uint64 \<Rightarrow> fee_state \<Rightarrow> (uint64 \<times> fee_state) option" where
  "wait_hw_ready env ap hw_timeout k this_delay now s = do {
     A \<leftarrow> adapters s ap;
     m \<leftarrow> rd_slot s A (my_slot A);
     if buflen m \<noteq> 0 \<and> time_before now hw_timeout
     then wait_hw_ready env ap hw_timeout (Suc k)
            (if this_delay < DELAY_MS_LOOP_MAX then this_delay + 2 else this_delay)
            (jiffies env (Suc k)) (sleep env k this_delay s)
     else Some (now, s)
   }"

declare wait_hw_ready.simps [code]

text \<open>The stores into the slot: the length, the terminator behind the text, the addressee, the
  text.\<close>

definition fill_slot :: "uint32 \<Rightarrow> bytes \<Rightarrow> uint64 \<Rightarrow> FEE_mailslot \<Rightarrow> FEE_mailslot option" where
  "fill_slot peer data len m = do {
     b1 \<leftarrow> store_at (buf m) (unat len) [NUL];
     b2 \<leftarrow> (if length data < unat len then None else store_at b1 0 (take (unat len) data));
     Some (m\<lparr>buflen := len, last_responder := ucast peer, buf := b2\<rparr>)
   }"

text \<open>\<open>SID == GENZ_FEE_SID_CID_IS_PEER_ID ? CID : CID / 100\<close>, stored in 32 unsigned bits.\<close>

definition dest_peer :: "int \<Rightarrow> int \<Rightarrow> uint32" where
  "dest_peer CID SID = word_of_int (if SID = GENZ_FEE_SID_CID_IS_PEER_ID then CID else CID sdiv 100)"

text \<open>The stores after the last look at the slot, and the doorbell.\<close>

definition post_outgoing :: "uint32 \<Rightarrow> bytes \<Rightarrow> uint64 \<Rightarrow> addr \<Rightarrow> fee_state \<Rightarrow> (int \<times> fee_state) option" where
  "post_outgoing peer data len ap s = do {
     A \<leftarrow> adapters s ap;
     m \<leftarrow> rd_slot s A (my_slot A);
     m' \<leftarrow> fill_slot peer data len m;
     if regs A = NULL then None
     else Some (s32 (uint len),
            (wr_slot A (my_slot A) m' s)\<lparr>doorbells := doorbells s @ [(ap, ringer (ucast peer) (my_id A))]\<rparr>)
   }"

definition FEE_create_outgoing ::
  "wait_env \<Rightarrow> int \<Rightarrow> int \<Rightarrow> bytes \<Rightarrow> uint64 \<Rightarrow> addr \<Rightarrow> fee_state \<Rightarrow> (int \<times> fee_state) option" where
  "FEE_create_outgoing env CID SID data len ap s = do {
     A \<leftarrow> adapters s ap;
     let hw_timeout = jiffies env 0 + PRIOR_RESP_WAIT env;
     let peer = dest_peer CID SID;
     if SID \<noteq> 27 \<and> SID \<noteq> GENZ_FEE_SID_CID_IS_PEER_ID then Some (err ENETUNREACH, s)
     else if peer < 1 then Some (err EBADSLT, s)
     else do {
       G \<leftarrow> rd_globals s A;
       if ucast peer > server_id G then Some (err EBADSLT, s)
       else if len \<ge> max_buflen A then Some (err E2BIG, s)
       else if len = 0 then Some (err ENODATA, s)
       else do {
         (now, s1) \<leftarrow> wait_hw_ready env ap hw_timeout 0 1 0 s;
         let remaining = hw_timeout - now;
         let s2 = (if remaining > longest s1 then s1\<lparr>longest := remaining\<rparr> else s1);
         A2 \<leftarrow> adapters s2 ap;
         m \<leftarrow> rd_slot s2 A2 (my_slot A2);
         if buflen m \<noteq> 0 then Some (err ERESTARTSYS, s2)
         else post_outgoing peer data len ap s2
       }
     }
   }"

section \<open>Receiving\<close>

text \<open>
  \<open>wait_event_interruptible\<close> is the parameter \<open>wait_event\<close>: its result and the state in which the
  process runs again. An \<open>ERR_PTR\<close> is on the left, the adapter's incoming slot on the right.
\<close>

definition FEE_await_incoming ::
  "(fee_state \<Rightarrow> int \<times> fee_state) \<Rightarrow> addr \<Rightarrow> bool \<Rightarrow> fee_state \<Rightarrow> (errptr \<times> fee_state) option" where
  "FEE_await_incoming wait_event ap nonblocking s = do {
     A \<leftarrow> adapters s ap;
     if incoming_slot A \<noteq> NULL then Some (Inr (incoming_slot A), s)
     else if nonblocking then Some (Inl (err EAGAIN), s)
     else do {
       let (ret, s1) = wait_event s;
       if ret \<noteq> 0 then Some (Inl ret, s1)
       else do { A1 \<leftarrow> adapters s1 ap; Some (Inr (incoming_slot A1), s1) }
     }
   }"

text \<open>A spinlock that is taken while it is held never returns; releasing a free one is a fault.\<close>

definition spin_lock :: "addr \<Rightarrow> fee_state \<Rightarrow> fee_state option" where
  "spin_lock ap s = do {
     A \<leftarrow> adapters s ap;
     if incoming_slot_lock A then None else Some (wr_adapter ap (A\<lparr>incoming_slot_lock := True\<rparr>) s)
   }"

definition spin_unlock :: "addr \<Rightarrow> fee_state \<Rightarrow> fee_state option" where
  "spin_unlock ap s = do {
     A \<leftarrow> adapters s ap;
     if incoming_slot_lock A then Some (wr_adapter ap (A\<lparr>incoming_slot_lock := False\<rparr>) s) else None
   }"

definition FEE_release_incoming :: "addr \<Rightarrow> fee_state \<Rightarrow> fee_state option" where
  "FEE_release_incoming ap s = do {
     s1 \<leftarrow> spin_lock ap s;
     A \<leftarrow> adapters s1 ap;
     m \<leftarrow> rd_slot s1 A (incoming_slot A);
     let s2 = wr_slot A (incoming_slot A) (m\<lparr>buflen := 0\<rparr>) s1;
     let s3 = wr_adapter ap (A\<lparr>incoming_slot := NULL\<rparr>) s2;
     spin_unlock ap s3
   }"

section \<open>The invariant\<close>

text \<open>The payload area of a slot.\<close>

definition payload_size :: "FEE_globals \<Rightarrow> nat" where
  "payload_size G = unat (slotsize G) - 128"

text \<open>A slot as the server and the drivers keep it: arrays of their sizes, the owner's id, and a text
  that leaves room for its terminator; the payload area always holds one.\<close>

definition slot_ok :: "FEE_globals \<Rightarrow> nat \<Rightarrow> FEE_mailslot \<Rightarrow> bool" where
  "slot_ok G n m \<longleftrightarrow>
     length (nodename m) = 32 \<and> length (cclass m) = 32 \<and> length (pad m) = 3 \<and>
     length (buf m) = payload_size G \<and> terminated (buf m) \<and> unat (buflen m) < payload_size G \<and>
     peer_id m = of_nat n"

text \<open>An adapter as \<open>FEE_adapter_create\<close> leaves it: the mailbox mapped, its own slot computed from its
  id, and an incoming slot that is NULL or a slot of the mailbox.\<close>

definition adapter_ok :: "FEE_globals \<Rightarrow> FEE_adapter \<Rightarrow> bool" where
  "adapter_ok G A \<longleftrightarrow>
     mapped_ok (globals A) G \<and> regs A \<noteq> NULL \<and> valid_id G (unat (my_id A)) \<and>
     my_slot A = globals A + slot_off G (unat (my_id A)) \<and>
     max_buflen A = slotsize G - buf_offset G \<and>
     (incoming_slot A = NULL \<or> (\<exists>n. valid_id G n \<and> incoming_slot A = globals A + slot_off G n))"

definition fee_inv :: "fee_state \<Rightarrow> bool" where
  "fee_inv s \<longleftrightarrow>
     globals_ok (glob s) \<and>
     (\<forall>n. valid_id (glob s) n \<longrightarrow> slot_ok (glob s) n (mail s (slot_off (glob s) n))) \<and>
     (\<forall>ap A. adapters s ap = Some A \<longrightarrow> ap \<noteq> NULL \<and> adapter_ok (glob s) A)"

lemma fee_inv_globals: "fee_inv s \<Longrightarrow> globals_ok (glob s)"
  by (simp add: fee_inv_def)

lemma fee_inv_slot: "fee_inv s \<Longrightarrow> valid_id (glob s) n \<Longrightarrow> slot_ok (glob s) n (mail s (slot_off (glob s) n))"
  by (simp add: fee_inv_def)

lemma fee_inv_adapter: "fee_inv s \<Longrightarrow> adapters s ap = Some A \<Longrightarrow> adapter_ok (glob s) A"
  by (simp add: fee_inv_def)

lemma payload_size_pos: "globals_ok G \<Longrightarrow> 0 < payload_size G"
  using slotsize_pos[of G] by (simp add: payload_size_def)

lemma max_buflen_unat:
  assumes "globals_ok G" "adapter_ok G A"
  shows "unat (max_buflen A) = payload_size G"
proof -
  have "(128 :: uint64) \<le> slotsize G" using slotsize_pos[OF assms(1)] by (simp add: word_le_nat_alt)
  with assms show ?thesis
    by (auto simp: globals_ok_def adapter_ok_def payload_size_def MSG_OFFSET_def unat_sub)
qed

lemma my_slot_nonnull: "globals_ok G \<Longrightarrow> adapter_ok G A \<Longrightarrow> my_slot A \<noteq> NULL"
  using slot_addr_nonnull[of G "globals A"] valid_id_le by (simp add: adapter_ok_def)

lemma my_slot_offset: "adapter_ok G A \<Longrightarrow> my_slot A - globals A = slot_off G (unat (my_id A))"
  by (simp add: adapter_ok_def)

lemma rd_my_slot:
  assumes "globals_ok (glob s)" "adapter_ok (glob s) A"
  shows "rd_slot s A (my_slot A) = Some (mail s (slot_off (glob s) (unat (my_id A))))"
  using my_slot_nonnull[OF assms] my_slot_offset[OF assms(2)] by (simp add: rd_slot_def)

lemma rd_incoming_slot:
  assumes "globals_ok (glob s)" "adapter_ok (glob s) A" "incoming_slot A \<noteq> NULL"
  obtains n where "valid_id (glob s) n" "incoming_slot A = globals A + slot_off (glob s) n"
    "rd_slot s A (incoming_slot A) = Some (mail s (slot_off (glob s) n))"
  using assms by (auto simp: adapter_ok_def rd_slot_def)

lemma adapter_ok_globals: "adapter_ok G A \<Longrightarrow> globals A \<noteq> NULL"
  by (simp add: adapter_ok_def mapped_ok_def)

text \<open>The updates the drivers make, and what keeps the invariant.\<close>

lemma fee_inv_mail_upd:
  assumes "fee_inv s" "valid_id (glob s) n" "slot_ok (glob s) n m"
  shows "fee_inv (s\<lparr>mail := (mail s)(slot_off (glob s) n := m)\<rparr>)"
proof -
  have "slot_off (glob s) k = slot_off (glob s) n \<Longrightarrow> valid_id (glob s) k \<Longrightarrow> k = n" for k
    using slot_off_inj[OF fee_inv_globals[OF assms(1)]] assms(2) valid_id_le by blast
  with assms show ?thesis by (auto simp: fee_inv_def)
qed

lemma fee_inv_adapter_upd:
  assumes "fee_inv s" "ap \<noteq> NULL" "adapter_ok (glob s) A"
  shows "fee_inv (wr_adapter ap A s)"
  using assms by (auto simp: fee_inv_def wr_adapter_def)

lemma fee_inv_frame [simp]:
  "fee_inv (s\<lparr>doorbells := x\<rparr>) = fee_inv s" "fee_inv (s\<lparr>longest := y\<rparr>) = fee_inv s"
  "fee_inv (s\<lparr>cores := c\<rparr>) = fee_inv s" "fee_inv (s\<lparr>led := l\<rparr>) = fee_inv s"
  by (simp_all add: fee_inv_def)

section \<open>Lemmas: sending\<close>

lemma ringer_fields:
  "drop_bit 16 (ringer peer vect) = ucast peer" "take_bit 16 (ringer peer vect) = ucast vect"
proof -
  show "drop_bit 16 (ringer peer vect) = ucast peer"
    by (rule bit_word_eqI) (auto simp: ringer_def bit_simps dest: bit_imp_le_length)
  show "take_bit 16 (ringer peer vect) = ucast vect"
    by (rule bit_word_eqI) (auto simp: ringer_def bit_simps dest: bit_imp_le_length)
qed

lemma fill_slot_ok:
  assumes "unat len < length (buf m)" "unat len \<le> length data"
  shows "fill_slot peer data len m = Some (m\<lparr>buflen := len, last_responder := ucast peer,
     buf := take (unat len) data @ NUL # drop (Suc (unat len)) (buf m)\<rparr>)"
  using assms by (simp add: fill_slot_def store_at_def not_less min_absorb2)

lemma wait_not_busy:
  assumes "adapters s ap = Some A" "rd_slot s A (my_slot A) = Some m" "buflen m = 0"
  shows "wait_hw_ready env ap T k d now s = Some (now, s)"
  using assms by (simp add: wait_hw_ready.simps)

text \<open>What the rest of the world may do while a sender sleeps: anything that keeps the invariant, the
  globals, and the fields of the sender's adapter that no one changes after its creation.\<close>

definition keeps_adapter :: "addr \<Rightarrow> fee_state \<Rightarrow> fee_state \<Rightarrow> bool" where
  "keeps_adapter ap s s' \<longleftrightarrow> glob s' = glob s \<and>
     (\<forall>A. adapters s ap = Some A \<longrightarrow>
        (\<exists>A'. adapters s' ap = Some A' \<and> my_slot A' = my_slot A \<and> globals A' = globals A \<and>
           my_id A' = my_id A \<and> max_buflen A' = max_buflen A \<and> regs A' = regs A))"

definition benign :: "wait_env \<Rightarrow> addr \<Rightarrow> bool" where
  "benign env ap \<longleftrightarrow> (\<forall>k d s. fee_inv s \<longrightarrow> fee_inv (sleep env k d s) \<and> keeps_adapter ap s (sleep env k d s))"

text \<open>The clock passes the timeout at some point.\<close>

definition clock_runs :: "wait_env \<Rightarrow> bool" where
  "clock_runs env \<longleftrightarrow>
     (\<exists>k. \<not> time_before (jiffies env (Suc k)) (jiffies env 0 + PRIOR_RESP_WAIT env))"

lemma keeps_adapter_refl [simp]: "keeps_adapter ap s s"
  by (auto simp: keeps_adapter_def)

lemma keeps_adapter_trans:
  assumes "keeps_adapter ap s t" "keeps_adapter ap t u"
  shows "keeps_adapter ap s u"
proof (cases "adapters s ap")
  case None
  with assms show ?thesis by (simp add: keeps_adapter_def)
next
  case (Some A)
  with assms(1) obtain B where "adapters t ap = Some B" by (auto simp: keeps_adapter_def)
  with assms Some show ?thesis by (auto simp: keeps_adapter_def)
qed

definition my_mail :: "fee_state \<Rightarrow> FEE_adapter \<Rightarrow> FEE_mailslot" where
  "my_mail s A = mail s (slot_off (glob s) (unat (my_id A)))"

lemma rd_my_mail:
  "fee_inv s \<Longrightarrow> adapters s ap = Some A \<Longrightarrow> rd_slot s A (my_slot A) = Some (my_mail s A)"
  using rd_my_slot[OF fee_inv_globals fee_inv_adapter] by (simp add: my_mail_def)

lemma wait_step:
  assumes "fee_inv s" "adapters s ap = Some A"
  shows "wait_hw_ready env ap T k d now s =
    (if buflen (my_mail s A) \<noteq> 0 \<and> time_before now T
     then wait_hw_ready env ap T (Suc k) (if d < DELAY_MS_LOOP_MAX then d + 2 else d)
            (jiffies env (Suc k)) (sleep env k d s)
     else Some (now, s))"
  by (subst wait_hw_ready.simps) (simp add: assms rd_my_mail[OF assms])

text \<open>
  The interface of the wait loop to the world it sleeps in: \<open>I\<close> is an invariant of mailbox and adapters, and in a world
  that is \<open>ok\<close> every sleep keeps it and the sender's adapter, and the clock runs. Then the loop ends, with the slot free or the
  time over.
\<close>

locale wait_world =
  fixes ok :: "wait_env \<Rightarrow> bool" and I :: "fee_state \<Rightarrow> bool" and ap :: addr
  assumes keeps: "ok env \<Longrightarrow> I s \<Longrightarrow> I (sleep env k d s) \<and> keeps_adapter ap s (sleep env k d s)"
    and inv: "I s \<Longrightarrow> fee_inv s"
    and clock: "ok env \<Longrightarrow> clock_runs env"
begin

lemma sleep_adapter:
  assumes "ok env" "I s" "adapters s ap = Some A"
  obtains A' where "I (sleep env k d s)" "keeps_adapter ap s (sleep env k d s)" "adapters (sleep env k d s) ap = Some A'"
  using keeps[OF assms(1,2), of k d] assms(3) that by (auto simp: keeps_adapter_def)

lemma wait_returns:
  assumes "ok env" "\<not> time_before (jiffies env (Suc (k + n))) T" "I s" "adapters s ap = Some A"
  shows "\<exists>now' s' A'. wait_hw_ready env ap T k d now s = Some (now', s') \<and> I s' \<and>
    keeps_adapter ap s s' \<and> adapters s' ap = Some A' \<and>
    (buflen (my_mail s' A') = 0 \<or> \<not> time_before now' T)"
  using assms(2-4)
proof (induction n arbitrary: k d now s A)
  case 0
  let ?s = "sleep env k d s"
  obtain A' where s: "I ?s" "keeps_adapter ap s ?s" "adapters ?s ap = Some A'"
    by (rule sleep_adapter[OF assms(1) 0(2,3)])
  show ?case
  proof (cases "buflen (my_mail s A) \<noteq> 0 \<and> time_before now T")
    case True
    then have "wait_hw_ready env ap T k d now s = Some (jiffies env (Suc k), ?s)"
      using 0(1) by (simp add: wait_step[OF inv[OF 0(2)] 0(3)] wait_step[OF inv[OF s(1)] s(3)])
    then show ?thesis using s 0(1) by auto
  next
    case False
    then show ?thesis using 0 by (auto simp: wait_step[OF inv[OF 0(2)] 0(3)])
  qed
next
  case (Suc n)
  note step = wait_step[OF inv[OF Suc.prems(2)] Suc.prems(3)]
  let ?s = "sleep env k d s"
  let ?d = "if d < DELAY_MS_LOOP_MAX then d + 2 else d"
  obtain A' where s: "I ?s" "keeps_adapter ap s ?s" "adapters ?s ap = Some A'"
    by (rule sleep_adapter[OF assms(1) Suc.prems(2,3)])
  show ?case
  proof (cases "buflen (my_mail s A) \<noteq> 0 \<and> time_before now T")
    case True
    then have eq: "wait_hw_ready env ap T k d now s =
        wait_hw_ready env ap T (Suc k) ?d (jiffies env (Suc k)) ?s"
      by (simp only: step if_True simp_thms)
    have "\<not> time_before (jiffies env (Suc (Suc k + n))) T" using Suc.prems(1) by simp
    from Suc.IH[OF this s(1,3), of ?d "jiffies env (Suc k)"] show ?thesis
      unfolding eq using keeps_adapter_trans[OF s(2)] by blast
  next
    case False
    then show ?thesis using Suc.prems(2,3) by (auto simp: step)
  qed
qed

lemma wait_ends:
  assumes "ok env" "I s" "adapters s ap = Some A"
  obtains now s1 A1 where
    "wait_hw_ready env ap (jiffies env 0 + PRIOR_RESP_WAIT env) 0 1 0 s = Some (now, s1)"
    "I s1" "keeps_adapter ap s s1" "adapters s1 ap = Some A1"
    "buflen (my_mail s1 A1) = 0 \<or> \<not> time_before now (jiffies env 0 + PRIOR_RESP_WAIT env)"
proof -
  from clock[OF assms(1)] obtain n
    where "\<not> time_before (jiffies env (Suc (0 + n))) (jiffies env 0 + PRIOR_RESP_WAIT env)"
    by (auto simp: clock_runs_def)
  from wait_returns[OF assms(1) this assms(2,3), of 1 0] that show thesis by blast
qed

end

interpretation peers: wait_world "\<lambda>env. benign env ap \<and> clock_runs env" fee_inv ap for ap
  by unfold_locales (auto simp: benign_def)

section \<open>What a mailslot says\<close>

text \<open>
  The abstract mailbox: for every id, the message it has in flight, if any: whom it is for, and the
  text. Sending puts a message there, releasing takes it away; nothing else is visible.
\<close>

definition slot_view :: "FEE_mailslot \<Rightarrow> (nat \<times> bytes) option" where
  "slot_view m =
     (if buflen m = 0 then None else Some (unat (last_responder m), take (unat (buflen m)) (buf m)))"

definition outbox :: "fee_state \<Rightarrow> nat \<Rightarrow> (nat \<times> bytes) option" where
  "outbox s n = (if valid_id (glob s) n then slot_view (mail s (slot_off (glob s) n)) else None)"

lemma outbox_upd:
  assumes "globals_ok (glob s)" "valid_id (glob s) n"
  shows "outbox (s\<lparr>mail := (mail s)(slot_off (glob s) n := m)\<rparr>) = (outbox s)(n := slot_view m)"
proof
  fix k
  have "valid_id (glob s) k \<Longrightarrow> slot_off (glob s) k = slot_off (glob s) n \<longleftrightarrow> k = n"
    using slot_off_inj[OF assms(1)] assms(2) valid_id_le by blast
  with assms(2) show "outbox (s\<lparr>mail := (mail s)(slot_off (glob s) n := m)\<rparr>) k
      = ((outbox s)(n := slot_view m)) k"
    by (auto simp: outbox_def)
qed

lemma outbox_frame [simp]:
  "outbox (s\<lparr>doorbells := x\<rparr>) = outbox s" "outbox (s\<lparr>longest := y\<rparr>) = outbox s"
  "outbox (s\<lparr>cores := c\<rparr>) = outbox s" "outbox (wr_adapter ap A s) = outbox s"
  by (simp_all add: outbox_def fun_eq_iff wr_adapter_def)

lemma outbox_free: "valid_id (glob s) n \<Longrightarrow> outbox s n = None \<longleftrightarrow> buflen (mail s (slot_off (glob s) n)) = 0"
  by (simp add: outbox_def slot_view_def)

section \<open>The outcome of a send\<close>

text \<open>The error a send reports before it touches anything.\<close>

definition send_error :: "FEE_globals \<Rightarrow> int \<Rightarrow> int \<Rightarrow> uint64 \<Rightarrow> errno option" where
  "send_error G CID SID len =
     (if SID \<noteq> 27 \<and> SID \<noteq> GENZ_FEE_SID_CID_IS_PEER_ID then Some ENETUNREACH
      else if unat (dest_peer CID SID) = 0 \<or> unat (server_id G) < unat (dest_peer CID SID) then Some EBADSLT
      else if payload_size G \<le> unat len then Some E2BIG
      else if len = 0 then Some ENODATA
      else None)"

text \<open>The state after the stores of a successful send.\<close>

definition sent ::
  "addr \<Rightarrow> FEE_adapter \<Rightarrow> uint32 \<Rightarrow> bytes \<Rightarrow> uint64 \<Rightarrow> fee_state \<Rightarrow> fee_state" where
  "sent ap A peer data len s =
     s\<lparr>mail := (mail s)(slot_off (glob s) (unat (my_id A)) :=
          (my_mail s A)\<lparr>buflen := len, last_responder := ucast peer,
             buf := take (unat len) data @ NUL # drop (Suc (unat len)) (buf (my_mail s A))\<rparr>),
       doorbells := doorbells s @ [(ap, ringer (ucast peer) (my_id A))]\<rparr>"

text \<open>A send after the checks, in two steps: the wait, then the stores.\<close>

definition note_longest :: "uint64 \<Rightarrow> fee_state \<Rightarrow> fee_state" where
  "note_longest r s = (if r > longest s then s\<lparr>longest := r\<rparr> else s)"

lemma note_longest_frame [simp]:
  "fee_inv (note_longest r s) = fee_inv s" "adapters (note_longest r s) = adapters s"
  "glob (note_longest r s) = glob s" "mail (note_longest r s) = mail s"
  "outbox (note_longest r s) = outbox s" "my_mail (note_longest r s) = my_mail s"
  "keeps_adapter ap s0 (note_longest r s) = keeps_adapter ap s0 s"
  by (simp_all add: note_longest_def keeps_adapter_def my_mail_def fun_eq_iff)

lemma send_checks:
  assumes "fee_inv s" "adapters s ap = Some A"
  shows "(dest_peer CID SID < 1) = (unat (dest_peer CID SID) = 0)"
    "(server_id (glob s) < ucast (dest_peer CID SID)) = (unat (server_id (glob s)) < unat (dest_peer CID SID))"
    "(max_buflen A \<le> len) = (payload_size (glob s) \<le> unat len)"
  using max_buflen_unat[OF fee_inv_globals[OF assms(1)] fee_inv_adapter[OF assms]]
  by (simp_all add: word_less_nat_alt word_le_nat_alt c_conv)

text \<open>The function after its checks.\<close>

definition send_body ::
  "wait_env \<Rightarrow> uint32 \<Rightarrow> bytes \<Rightarrow> uint64 \<Rightarrow> addr \<Rightarrow> fee_state \<Rightarrow> (int \<times> fee_state) option" where
  "send_body env peer data len ap s = do {
     (now, s1) \<leftarrow> wait_hw_ready env ap (jiffies env 0 + PRIOR_RESP_WAIT env) 0 1 0 s;
     let s2 = note_longest (jiffies env 0 + PRIOR_RESP_WAIT env - now) s1;
     A2 \<leftarrow> adapters s2 ap;
     m \<leftarrow> rd_slot s2 A2 (my_slot A2);
     if buflen m \<noteq> 0 then Some (err ERESTARTSYS, s2)
     else post_outgoing peer data len ap s2
   }"

lemma create_outgoing_checks:
  assumes "fee_inv s" "adapters s ap = Some A"
  shows "FEE_create_outgoing env CID SID data len ap s =
    (case send_error (glob s) CID SID len of
       Some e \<Rightarrow> Some (err e, s)
     | None \<Rightarrow> send_body env (dest_peer CID SID) data len ap s)"
proof -
  define P where "P = dest_peer CID SID"
  define b1 where "b1 \<longleftrightarrow> SID \<noteq> 27 \<and> SID \<noteq> GENZ_FEE_SID_CID_IS_PEER_ID"
  define b2 where "b2 \<longleftrightarrow> unat P = 0"
  define b3 where "b3 \<longleftrightarrow> unat (server_id (glob s)) < unat P"
  define b4 where "b4 \<longleftrightarrow> payload_size (glob s) \<le> unat len"
  have g: "rd_globals s A = Some (glob s)"
    using adapter_ok_globals[OF fee_inv_adapter[OF assms]] by (simp add: rd_globals_def)
  show ?thesis
    unfolding FEE_create_outgoing_def send_error_def send_body_def note_longest_def Let_def
      assms(2) bind.simps(2) g
    unfolding send_checks[OF assms]
    unfolding P_def[symmetric] b1_def[symmetric]
    unfolding b2_def[symmetric] b3_def[symmetric] b4_def[symmetric]
    by (cases b1; cases b2; cases b3; cases b4; cases "len = 0")
      (simp_all only: if_True if_False simp_thms option.case)
qed

lemma create_outgoing_error:
  assumes "fee_inv s" "adapters s ap = Some A" "send_error (glob s) CID SID len = Some e"
  shows "FEE_create_outgoing env CID SID data len ap s = Some (err e, s)"
  by (simp add: create_outgoing_checks[OF assms(1,2)] assms(3))

lemma send_error_None:
  assumes "send_error G CID SID len = None"
  shows "unat len < payload_size G" "len \<noteq> 0" "0 < unat (dest_peer CID SID)"
    "unat (dest_peer CID SID) \<le> unat (server_id G)"
  using assms unfolding send_error_def by (metis not_le not_less_zero option.distinct(1) neq0_conv)+

lemma post_outgoing_sent:
  assumes "fee_inv s" "adapters s ap = Some A" "unat len < payload_size (glob s)" "unat len \<le> length data"
  shows "post_outgoing peer data len ap s = Some (s32 (uint len), sent ap A peer data len s)"
proof -
  have G: "adapter_ok (glob s) A" using fee_inv_adapter[OF assms(1,2)] .
  then have slot: "slot_ok (glob s) (unat (my_id A)) (my_mail s A)"
    using fee_inv_slot[OF assms(1)] by (simp add: my_mail_def adapter_ok_def)
  have "fill_slot peer data len (my_mail s A) = Some ((my_mail s A)\<lparr>buflen := len, last_responder := ucast peer,
      buf := take (unat len) data @ NUL # drop (Suc (unat len)) (buf (my_mail s A))\<rparr>)"
    using slot assms(3,4) by (intro fill_slot_ok) (simp_all add: slot_ok_def)
  moreover have "regs A \<noteq> NULL" "my_slot A - globals A = slot_off (glob s) (unat (my_id A))"
    using G by (simp_all add: adapter_ok_def)
  ultimately show ?thesis
    using assms(2) rd_my_mail[OF assms(1,2)] by (simp add: post_outgoing_def sent_def wr_slot_def del: One_nat_def bind_eq_Some)
qed

lemma create_outgoing_after_checks:
  assumes "fee_inv s" "adapters s ap = Some A" "send_error (glob s) CID SID len = None"
    and "wait_hw_ready env ap (jiffies env 0 + PRIOR_RESP_WAIT env) 0 1 0 s = Some (now, s1)"
    and "fee_inv s1" "adapters s1 ap = Some A1" "glob s1 = glob s" "unat len \<le> length data"
  shows "FEE_create_outgoing env CID SID data len ap s =
    (let s2 = note_longest (jiffies env 0 + PRIOR_RESP_WAIT env - now) s1 in
     if buflen (my_mail s1 A1) \<noteq> 0 then Some (err ERESTARTSYS, s2)
     else Some (s32 (uint len), sent ap A1 (dest_peer CID SID) data len s2))"
proof -
  let ?s2 = "note_longest (jiffies env 0 + PRIOR_RESP_WAIT env - now) s1"
  have s2: "fee_inv ?s2" "adapters ?s2 ap = Some A1" "unat len < payload_size (glob ?s2)"
    using assms(5,6,7) send_error_None(1)[OF assms(3)] by simp_all
  show ?thesis
    using rd_my_mail[OF s2(1,2)]
    by (simp add: create_outgoing_checks[OF assms(1,2)] assms(3,4,6) send_body_def Let_def
        post_outgoing_sent[OF s2 assms(8)] del: One_nat_def bind_eq_Some)
qed

text \<open>What the stores of a successful send do to the invariant and to the abstract mailbox.\<close>

lemma sent_inv:
  assumes "fee_inv s" "adapters s ap = Some A" "unat len < payload_size (glob s)" "unat len \<le> length data"
  shows "fee_inv (sent ap A peer data len s)"
proof -
  have v: "valid_id (glob s) (unat (my_id A))"
    using fee_inv_adapter[OF assms(1,2)] by (simp add: adapter_ok_def)
  from fee_inv_slot[OF assms(1) v] have "slot_ok (glob s) (unat (my_id A)) (my_mail s A)"
    by (simp add: my_mail_def)
  then have "slot_ok (glob s) (unat (my_id A)) ((my_mail s A)\<lparr>buflen := len, last_responder := ucast peer,
      buf := take (unat len) data @ NUL # drop (Suc (unat len)) (buf (my_mail s A))\<rparr>)"
    using assms(3,4) by (auto simp: slot_ok_def terminated_def min_absorb2)
  from fee_inv_mail_upd[OF assms(1) v this] show ?thesis by (simp add: sent_def)
qed

lemma sent_outbox:
  assumes "fee_inv s" "adapters s ap = Some A" "len \<noteq> 0" "unat len \<le> length data"
  shows "outbox (sent ap A peer data len s) =
    (outbox s)(unat (my_id A) \<mapsto> (unat peer, take (unat len) data))"
proof -
  have v: "valid_id (glob s) (unat (my_id A))"
    using fee_inv_adapter[OF assms(1,2)] by (simp add: adapter_ok_def)
  show ?thesis
    using assms(3,4)
    by (simp add: sent_def outbox_upd[OF fee_inv_globals[OF assms(1)] v] slot_view_def c_conv min_absorb2)
qed

lemma sent_frame [simp]:
  "adapters (sent ap A peer data len s) = adapters s" "glob (sent ap A peer data len s) = glob s"
  "cores (sent ap A peer data len s) = cores s" "led (sent ap A peer data len s) = led s"
  "FEE_adapter_list (sent ap A peer data len s) = FEE_adapter_list s"
  "pdevs (sent ap A peer data len s) = pdevs s"
  "doorbells (sent ap A peer data len s) = doorbells s @ [(ap, ringer (ucast peer) (my_id A))]"
  "keeps_adapter ap' s0 (sent ap A peer data len s) = keeps_adapter ap' s0 s"
  by (simp_all add: sent_def keeps_adapter_def)

lemma outbox_my_mail:
  "fee_inv s \<Longrightarrow> adapters s ap = Some A \<Longrightarrow> outbox s (unat (my_id A)) = None \<longleftrightarrow> buflen (my_mail s A) = 0"
  using fee_inv_adapter[of s ap A] by (simp add: outbox_free my_mail_def adapter_ok_def)

text \<open>A send that passed its checks and came out of the wait in the state \<open>s1\<close>.\<close>

lemma create_outgoing_waited:
  assumes "fee_inv s" "adapters s ap = Some A" "send_error (glob s) CID SID len = None" "unat len \<le> length data"
    and "wait_hw_ready env ap (jiffies env 0 + PRIOR_RESP_WAIT env) 0 1 0 s = Some (now, s1)"
    and "fee_inv s1" "keeps_adapter ap s s1"
  obtains A1 x where "adapters s1 ap = Some A1" "my_id A1 = my_id A" "glob s1 = glob s"
    "FEE_create_outgoing env CID SID data len ap s =
       (if outbox s1 (unat (my_id A)) = None
        then Some (s32 (uint len), sent ap A1 (dest_peer CID SID) data len (note_longest x s1))
        else Some (err ERESTARTSYS, note_longest x s1))"
    "fee_inv (sent ap A1 (dest_peer CID SID) data len (note_longest x s1))"
    "outbox (sent ap A1 (dest_peer CID SID) data len (note_longest x s1)) =
       (outbox s1)(unat (my_id A) \<mapsto> (unat (dest_peer CID SID), take (unat len) data))"
    "x = jiffies env 0 + PRIOR_RESP_WAIT env - now"
proof -
  obtain A1 where A1: "adapters s1 ap = Some A1" "my_id A1 = my_id A" and g: "glob s1 = glob s"
    using assms(2,7) by (auto simp: keeps_adapter_def)
  define x where "x = jiffies env 0 + PRIOR_RESP_WAIT env - now"
  note len = send_error_None(1,2)[OF assms(3)]
  have s2: "fee_inv (note_longest x s1)" "adapters (note_longest x s1) ap = Some A1"
    "unat len < payload_size (glob (note_longest x s1))" using assms(6) A1 g len(1) by simp_all
  show thesis
  proof (rule that[OF A1 g _ sent_inv[OF s2 assms(4)] _ x_def])
    show "FEE_create_outgoing env CID SID data len ap s =
       (if outbox s1 (unat (my_id A)) = None
        then Some (s32 (uint len), sent ap A1 (dest_peer CID SID) data len (note_longest x s1))
        else Some (err ERESTARTSYS, note_longest x s1))"
      using create_outgoing_after_checks[OF assms(1-3,5,6) A1(1) g assms(4)] outbox_my_mail[OF assms(6) A1(1)] A1(2)
      by (simp add: x_def Let_def)
  qed (use sent_outbox[OF s2(1,2) len(2) assms(4)] A1(2) in simp)
qed

text \<open>The adapter's own slot is free: the message goes out at once.\<close>

lemma wait_free:
  assumes "fee_inv s" "adapters s ap = Some A" "outbox s (unat (my_id A)) = None"
  shows "wait_hw_ready env ap T k d now s = Some (now, s)"
  using wait_not_busy[OF assms(2) rd_my_mail[OF assms(1,2)]] outbox_my_mail[OF assms(1,2)] assms(3) by blast

lemma create_outgoing_idle:
  assumes "fee_inv s" "adapters s ap = Some A" "outbox s (unat (my_id A)) = None"
    and "send_error (glob s) CID SID len = None" "unat len \<le> length data"
  shows "FEE_create_outgoing env CID SID data len ap s =
    Some (s32 (uint len), sent ap A (dest_peer CID SID) data len
      (note_longest (jiffies env 0 + PRIOR_RESP_WAIT env) s))"
  by (rule create_outgoing_waited[OF assms(1,2,4,5) wait_free[OF assms(1-3), of env] assms(1) keeps_adapter_refl])
    (use assms(2,3) in simp)

text \<open>Every send returns, and the invariant holds again.\<close>

lemma create_outgoing_total:
  assumes "fee_inv s" "adapters s ap = Some A" "benign env ap" "clock_runs env"
    and "unat len \<le> length data"
  shows "\<exists>ret s'. FEE_create_outgoing env CID SID data len ap s = Some (ret, s') \<and> fee_inv s'"
proof (cases "send_error (glob s) CID SID len")
  case (Some e)
  then show ?thesis using create_outgoing_error[OF assms(1,2) Some] assms(1) by auto
next
  case None
  obtain now s1 where w: "wait_hw_ready env ap (jiffies env 0 + PRIOR_RESP_WAIT env) 0 1 0 s = Some (now, s1)"
    and s1: "fee_inv s1" "keeps_adapter ap s s1"
    by (rule peers.wait_ends[OF conjI[OF assms(3,4)] assms(1,2)])
  show ?thesis by (rule create_outgoing_waited[OF assms(1,2) None assms(5) w s1]) (use s1(1) in auto)
qed

section \<open>When a send goes out\<close>

text \<open>The looks of the wait loop at the slot: the delay before look \<open>Suc k\<close>, the time the loop has at look \<open>k\<close>, and the
  state it sees.\<close>

definition delay :: "nat \<Rightarrow> nat" where
  "delay k = min (2 * k + 1) 11"

definition look :: "wait_env \<Rightarrow> nat \<Rightarrow> uint64" where
  "look env k = (if k = 0 then 0 else jiffies env k)"

primrec slept :: "wait_env \<Rightarrow> nat \<Rightarrow> fee_state \<Rightarrow> fee_state" where
  "slept env 0 s = s"
| "slept env (Suc k) s = sleep env k (delay k) (slept env k s)"

lemma delay_Suc: "delay (Suc k) = (if delay k < DELAY_MS_LOOP_MAX then delay k + 2 else delay k)"
  by (simp add: delay_def DELAY_MS_LOOP_MAX_def)

context wait_world
begin

lemma slept_keeps:
  assumes "ok env" "I s"
  shows "I (slept env k s) \<and> keeps_adapter ap s (slept env k s)"
  using assms(2) by (induction k) (use keeps[OF assms(1)] keeps_adapter_trans in auto)

lemma wait_look:
  assumes "ok env" "I s" "adapters s ap = Some A"
  shows "wait_hw_ready env ap T k (delay k) (look env k) (slept env k s) =
    (if outbox (slept env k s) (unat (my_id A)) \<noteq> None \<and> time_before (look env k) T
     then wait_hw_ready env ap T (Suc k) (delay (Suc k)) (look env (Suc k)) (slept env (Suc k) s)
     else Some (look env k, slept env k s))"
proof -
  obtain A' where A': "I (slept env k s)" "adapters (slept env k s) ap = Some A'" "my_id A' = my_id A"
    using slept_keeps[OF assms(1,2), of k] assms(3) by (auto simp: keeps_adapter_def)
  note i = inv[OF A'(1)]
  show ?thesis
    using wait_step[OF i A'(2), of env T k "delay k" "look env k"] outbox_my_mail[OF i A'(2)] A'(3)
    by (simp add: delay_Suc look_def)
qed

lemma wait_polls:
  assumes "ok env" "I s" "adapters s ap = Some A"
    and "\<forall>j<k. outbox (slept env j s) (unat (my_id A)) \<noteq> None \<and> time_before (look env j) T"
    and "outbox (slept env k s) (unat (my_id A)) = None \<or> \<not> time_before (look env k) T"
  shows "wait_hw_ready env ap T 0 1 0 s = Some (look env k, slept env k s)"
proof -
  have "wait_hw_ready env ap T 0 (delay 0) (look env 0) (slept env 0 s) = Some (look env k, slept env k s)"
  proof (rule inc_induct[of 0 k])
    show "wait_hw_ready env ap T k (delay k) (look env k) (slept env k s) = Some (look env k, slept env k s)"
      using wait_look[OF assms(1-3), of T k] assms(5) by auto
  next
    fix n
    assume "n < k" "wait_hw_ready env ap T (Suc n) (delay (Suc n)) (look env (Suc n)) (slept env (Suc n) s) =
      Some (look env k, slept env k s)"
    then show "wait_hw_ready env ap T n (delay n) (look env n) (slept env n s) = Some (look env k, slept env k s)"
      using wait_look[OF assms(1-3), of T n] assms(4) by simp
  qed simp
  then show ?thesis by (simp add: delay_def look_def)
qed

lemma last_look:
  assumes "ok env"
  shows "\<exists>k. (\<forall>j<k. outbox (slept env j s) n \<noteq> None \<and> time_before (look env j) (jiffies env 0 + PRIOR_RESP_WAIT env)) \<and>
    (outbox (slept env k s) n = None \<or> \<not> time_before (look env k) (jiffies env 0 + PRIOR_RESP_WAIT env))"
proof -
  define P where "P k \<longleftrightarrow> outbox (slept env k s) n = None \<or> \<not> time_before (look env k) (jiffies env 0 + PRIOR_RESP_WAIT env)" for k
  obtain k where "P (Suc k)" using clock[OF assms] by (auto simp: P_def clock_runs_def look_def)
  then obtain m where "P m" "\<forall>j<m. \<not> P j" using exists_least_iff[of P] by auto
  then show ?thesis by (intro exI[of _ m]) (simp add: P_def)
qed

end

section \<open>What a send preserves\<close>

text \<open>
  The interface between a sender and the world it sleeps in: \<open>R\<close> relates the states before and after, and \<open>ok\<close>
  says that every sleep is such a step. Then the whole wait is one; and if the sender's own stores are, so is the
  whole send.
\<close>

locale wait_relation =
  fixes ok :: "wait_env \<Rightarrow> bool" and R :: "fee_state \<Rightarrow> fee_state \<Rightarrow> bool"
  assumes sleeps: "ok env \<Longrightarrow> R s (sleep env k d s)"
    and refl: "R s s"
    and trans: "R s t \<Longrightarrow> R t u \<Longrightarrow> R s u"
begin

lemma wait_rel:
  assumes "wait_hw_ready env ap T k d now s = Some y" "ok env"
  shows "R s (snd y)"
proof -
  have "ok env \<longrightarrow> R s (snd y)"
  proof (rule wait_hw_ready.raw_induct[OF _ assms(1), where P = "\<lambda>env ap T k d now s y. ok env \<longrightarrow> R s (snd y)"])
    fix f :: "wait_env \<Rightarrow> addr \<Rightarrow> uint64 \<Rightarrow> nat \<Rightarrow> nat \<Rightarrow> uint64 \<Rightarrow> fee_state \<Rightarrow> (uint64 \<times> fee_state) option"
    fix env ap T k d now s y
    assume IH: "\<And>env ap T k d now s y. f env ap T k d now s = Some y \<Longrightarrow> ok env \<longrightarrow> R s (snd y)"
    assume "adapters s ap \<bind> (\<lambda>A. rd_slot s A (my_slot A) \<bind> (\<lambda>m.
        if buflen m \<noteq> 0 \<and> time_before now T
        then f env ap T (Suc k) (if d < DELAY_MS_LOOP_MAX then d + 2 else d) (jiffies env (Suc k)) (sleep env k d s)
        else Some (now, s))) = Some y"
    then consider "y = (now, s)"
      | "f env ap T (Suc k) (if d < DELAY_MS_LOOP_MAX then d + 2 else d) (jiffies env (Suc k)) (sleep env k d s) = Some y"
      by (auto split: if_splits)
    then show "ok env \<longrightarrow> R s (snd y)"
    proof cases
      case 1
      then show ?thesis using refl by simp
    next
      case 2
      then show ?thesis using IH[OF 2] trans[OF sleeps] by blast
    qed
  qed
  with assms(2) show ?thesis by blast
qed

end

locale world_relation = wait_relation +
  assumes stores: "R s (s\<lparr>mail := m, doorbells := b, longest := l\<rparr>)"
begin

lemma send_rel:
  assumes "send_body env peer data len ap s = Some (r, s')" "ok env"
  shows "R s s'"
proof -
  define T where "T = jiffies env 0 + PRIOR_RESP_WAIT env"
  obtain now s1 where w: "wait_hw_ready env ap T 0 1 0 s = Some (now, s1)"
    using assms(1) unfolding send_body_def T_def by (auto simp del: One_nat_def)
  define s2 where "s2 = note_longest (T - now) s1"
  define l where "l = (if T - now > longest s1 then T - now else longest s1)"
  have "R s s1" using wait_rel[OF w assms(2)] by simp
  moreover have "s2 = s1\<lparr>mail := mail s1, doorbells := doorbells s1, longest := l\<rparr>"
    by (simp add: s2_def note_longest_def l_def)
  ultimately have s2: "R s s2" by (simp only: trans[OF _ stores])
  from assms(1) have "do {
      A2 \<leftarrow> adapters s2 ap;
      m \<leftarrow> rd_slot s2 A2 (my_slot A2);
      if buflen m \<noteq> 0 then Some (err ERESTARTSYS, s2)
      else post_outgoing peer data len ap s2
    } = Some (r, s')"
    by (simp only: send_body_def T_def[symmetric] w bind.simps(2) prod.case Let_def s2_def)
  then have "s' = s2 \<or> (\<exists>m b. s' = s2\<lparr>mail := m, doorbells := b, longest := longest s2\<rparr>)"
    by (auto simp: post_outgoing_def wr_slot_def split: if_splits)
  then show ?thesis using s2 trans[OF s2 stores] by (elim disjE exE) (simp_all only:)
qed

lemma create_rel:
  assumes "FEE_create_outgoing env CID SID data len ap s = Some (r, s')" "ok env"
    and "fee_inv s" "adapters s ap = Some A"
  shows "R s s'"
  using assms(1) refl unfolding create_outgoing_checks[OF assms(3,4)]
  by (cases "send_error (glob s) CID SID len") (auto intro: send_rel[OF _ assms(2)])

end

text \<open>A world in which nothing happens while a sender sleeps, for steps that are taken one at a time.\<close>

definition still :: "wait_env \<Rightarrow> bool" where
  "still env \<longleftrightarrow> clock_runs env \<and> (\<forall>k d s. sleep env k d s = s)"

section \<open>Lemmas: receiving\<close>

definition released :: "addr \<Rightarrow> FEE_adapter \<Rightarrow> nat \<Rightarrow> fee_state \<Rightarrow> fee_state" where
  "released ap A n s =
     s\<lparr>mail := (mail s)(slot_off (glob s) n := (mail s (slot_off (glob s) n))\<lparr>buflen := 0\<rparr>),
       adapters := (adapters s)(ap \<mapsto> A\<lparr>incoming_slot := NULL, incoming_slot_lock := False\<rparr>)\<rparr>"

lemma release_incoming_held:
  assumes "fee_inv s" "adapters s ap = Some A" "\<not> incoming_slot_lock A" "valid_id (glob s) n"
    and "incoming_slot A = globals A + slot_off (glob s) n"
  shows "FEE_release_incoming ap s = Some (released ap A n s)"
proof -
  have ok: "mapped_ok (globals A) (glob s)"
    using fee_inv_adapter[OF assms(1,2)] by (simp add: adapter_ok_def)
  have "incoming_slot A \<noteq> NULL"
    using slot_addr_nonnull[OF fee_inv_globals[OF assms(1)] ok valid_id_le[OF assms(4)]] assms(5) by simp
  with assms(2,3,5) show ?thesis
    by (simp add: FEE_release_incoming_def spin_lock_def spin_unlock_def wr_adapter_def wr_slot_def
        rd_slot_def released_def Let_def)
qed

lemma released_inv:
  assumes "fee_inv s" "adapters s ap = Some A" "valid_id (glob s) n"
  shows "fee_inv (released ap A n s)"
proof -
  let ?m = "(mail s (slot_off (glob s) n))\<lparr>buflen := 0\<rparr>"
  let ?s = "s\<lparr>mail := (mail s)(slot_off (glob s) n := ?m)\<rparr>"
  have "slot_ok (glob s) n ?m"
    using fee_inv_slot[OF assms(1,3)] payload_size_pos[OF fee_inv_globals[OF assms(1)]]
    by (simp add: slot_ok_def)
  from fee_inv_mail_upd[OF assms(1,3) this] have i: "fee_inv ?s" .
  have "ap \<noteq> NULL" using assms(1,2) by (auto simp: fee_inv_def)
  moreover have "adapter_ok (glob ?s) (A\<lparr>incoming_slot := NULL, incoming_slot_lock := False\<rparr>)"
    using fee_inv_adapter[OF assms(1,2)] by (simp add: adapter_ok_def)
  ultimately have "fee_inv (wr_adapter ap (A\<lparr>incoming_slot := NULL, incoming_slot_lock := False\<rparr>) ?s)"
    by (rule fee_inv_adapter_upd[OF i])
  then show ?thesis by (simp add: released_def wr_adapter_def)
qed

lemma released_outbox:
  assumes "globals_ok (glob s)" "valid_id (glob s) n"
  shows "outbox (released ap A n s) = (outbox s)(n := None)"
proof -
  let ?s = "s\<lparr>mail := (mail s)(slot_off (glob s) n := (mail s (slot_off (glob s) n))\<lparr>buflen := 0\<rparr>)\<rparr>"
  have "outbox (released ap A n s) = outbox ?s" by (simp add: fun_eq_iff outbox_def released_def)
  then show ?thesis by (simp add: outbox_upd[OF assms] slot_view_def)
qed

section \<open>Properties\<close>

lemma example_state_inv: "fee_inv example_state"
proof -
  have g: "glob example_state = example_globals" by (simp add: example_state_def)
  have off: "unat (slot_off example_globals n) = n * 512" if "valid_id example_globals n" for n
    using slot_off_unat[OF example_globals_ok valid_id_le[OF that]] by (simp add: example_globals_def)
  have "slot_ok example_globals n (mail example_state (slot_off example_globals n))"
    if "valid_id example_globals n" for n
    using that off[OF that]
    by (simp add: example_state_def slot_ok_def blank_slot_def payload_size_def example_globals_def
        terminated_def)
  moreover have "adapter_ok example_globals example_adapter"
    by (simp add: adapter_ok_def example_adapter_def mapped_ok_def example_globals_def last_id_def
        valid_id_def slot_off_def)
  moreover have "adapters example_state = [0xA000 \<mapsto> example_adapter]" by (simp add: example_state_def)
  ultimately show ?thesis by (auto simp: fee_inv_def g example_globals_ok split: if_splits)
qed

text \<open>The clock of the witnesses: 250 ticks a second, one sleep of a second each time.\<close>

definition example_env :: wait_env where
  "example_env = \<lparr>HZ = 250, jiffies = (\<lambda>k. 1000 + 250 * of_nat k), sleep = (\<lambda>_ _ s. s)\<rparr>"

lemma example_env_benign: "benign example_env ap"
  by (simp add: benign_def example_env_def)

lemma example_env_clock: "clock_runs example_env"
  unfolding clock_runs_def by (rule exI[of _ 4]) code_simp

text \<open>C4: A send always returns, whatever the peers do to the mailbox while it waits, as long as they
  keep the mailbox in order and the clock runs. It reports the first failing check without touching
  anything; after a wait in which nobody took the previous message it reports \<open>ERESTARTSYS\<close> and leaves
  the message alone; otherwise it puts exactly the given bytes, with its addressee, into the caller's own
  slot, changes no other slot, rings the addressee's doorbell with the caller's id, and returns the
  length. The invariant holds again in every case.\<close>

theorem create_outgoing_outcome:
  assumes "fee_inv s" "adapters s ap = Some A" "benign env ap" "clock_runs env"
    and "unat len \<le> length data"
  shows "\<exists>ret s'. FEE_create_outgoing env CID SID data len ap s = Some (ret, s') \<and> fee_inv s' \<and>
    (case send_error (glob s) CID SID len of
       Some e \<Rightarrow> ret = err e \<and> s' = s
     | None \<Rightarrow> \<exists>now s1.
         wait_hw_ready env ap (jiffies env 0 + PRIOR_RESP_WAIT env) 0 1 0 s = Some (now, s1) \<and>
         (if outbox s1 (unat (my_id A)) = None
          then ret = s32 (uint len) \<and>
            outbox s' = (outbox s1)(unat (my_id A) \<mapsto> (unat (dest_peer CID SID), take (unat len) data)) \<and>
            doorbells s' = doorbells s1 @ [(ap, ringer (ucast (dest_peer CID SID)) (my_id A))]
          else ret = err ERESTARTSYS \<and> outbox s' = outbox s1 \<and> doorbells s' = doorbells s1 \<and>
            \<not> time_before now (jiffies env 0 + PRIOR_RESP_WAIT env)))"
proof (cases "send_error (glob s) CID SID len")
  case (Some e)
  then show ?thesis using create_outgoing_error[OF assms(1,2) Some] assms(1) by auto
next
  case None
  obtain now s1 where w: "wait_hw_ready env ap (jiffies env 0 + PRIOR_RESP_WAIT env) 0 1 0 s = Some (now, s1)"
    and s1: "fee_inv s1" "keeps_adapter ap s s1"
    and out: "outbox s1 (unat (my_id A)) = None \<or> \<not> time_before now (jiffies env 0 + PRIOR_RESP_WAIT env)"
    by (rule peers.wait_ends[OF conjI[OF assms(3,4)] assms(1,2)])
      (use assms(2) in \<open>auto simp: outbox_my_mail[symmetric] keeps_adapter_def\<close>)
  have d: "doorbells (note_longest x s1) = doorbells s1" for x by (simp add: note_longest_def)
  show ?thesis
    by (rule create_outgoing_waited[OF assms(1,2) None assms(5) w s1])
      (use w s1(1) out None d in \<open>auto split: if_splits\<close>)
qed

theorem create_outgoing_outcome_witness:
  "\<exists>ret s'. FEE_create_outgoing example_env 500 27 ''hello'' 5 0xA000 example_state = Some (ret, s') \<and>
     fee_inv s' \<and> ret = 5 \<and> outbox s' 3 = Some (5, ''hello'') \<and>
     doorbells s' = [(0xA000, ringer 5 3)]"
proof -
  have a: "adapters example_state 0xA000 = Some example_adapter" by (simp add: example_state_def)
  have e: "send_error (glob example_state) 500 27 5 = None" by code_simp
  have n: "dest_peer 500 27 = 5" by code_simp
  have m: "my_id example_adapter = 3" by (simp add: example_adapter_def)
  have w: "wait_hw_ready example_env 0xA000 (jiffies example_env 0 + PRIOR_RESP_WAIT example_env) 0 1 0
      example_state = Some (0, example_state)"
    by (rule wait_not_busy[OF a rd_my_mail[OF example_state_inv a]])
      (simp add: my_mail_def example_state_def blank_slot_def)
  have o: "outbox example_state 3 = None" "doorbells example_state = []" by code_simp+
  have r: "s32 (uint (5 :: uint64)) = 5" by code_simp
  from create_outgoing_outcome[OF example_state_inv a example_env_benign example_env_clock,
      of 5 "''hello''" 500 27]
  show ?thesis using w o r by (auto simp: e n m)
qed

text \<open>C10: when a send goes out. The wait looks at the slot, then sleeps 1, 3, 5, 7, 9 and from then on 11 milliseconds
  between looks; the first look at which the slot is free sends, the first at which it is taken and the time is over gives
  \<open>ERESTARTSYS\<close>, and one of them comes.\<close>

theorem send_polls:
  assumes "fee_inv s" "adapters s ap = Some A" "benign env ap" "clock_runs env"
    and "send_error (glob s) CID SID len = None" "unat len \<le> length data"
  shows "\<exists>k s'.
    (\<forall>j<k. outbox (slept env j s) (unat (my_id A)) \<noteq> None \<and> time_before (look env j) (jiffies env 0 + PRIOR_RESP_WAIT env)) \<and>
    (if outbox (slept env k s) (unat (my_id A)) = None
     then FEE_create_outgoing env CID SID data len ap s = Some (s32 (uint len), s') \<and>
       outbox s' = (outbox (slept env k s))(unat (my_id A) \<mapsto> (unat (dest_peer CID SID), take (unat len) data))
     else FEE_create_outgoing env CID SID data len ap s = Some (err ERESTARTSYS, s') \<and> outbox s' = outbox (slept env k s) \<and>
       \<not> time_before (look env k) (jiffies env 0 + PRIOR_RESP_WAIT env))"
proof -
  note ok = conjI[OF assms(3,4)]
  from peers.last_look[OF ok, of s "unat (my_id A)"] obtain k where
    k: "\<forall>j<k. outbox (slept env j s) (unat (my_id A)) \<noteq> None \<and> time_before (look env j) (jiffies env 0 + PRIOR_RESP_WAIT env)"
      "outbox (slept env k s) (unat (my_id A)) = None \<or> \<not> time_before (look env k) (jiffies env 0 + PRIOR_RESP_WAIT env)"
    by (elim exE conjE)
  note w = peers.wait_polls[OF ok assms(1,2) k]
  obtain s1: "fee_inv (slept env k s)" "keeps_adapter ap s (slept env k s)"
    using peers.slept_keeps[OF ok assms(1)] by blast
  show ?thesis
  proof (rule create_outgoing_waited[OF assms(1,2,5,6) w s1])
    fix A1 x
    assume c: "FEE_create_outgoing env CID SID data len ap s =
        (if outbox (slept env k s) (unat (my_id A)) = None
         then Some (s32 (uint len), sent ap A1 (dest_peer CID SID) data len (note_longest x (slept env k s)))
         else Some (err ERESTARTSYS, note_longest x (slept env k s)))"
      and o: "outbox (sent ap A1 (dest_peer CID SID) data len (note_longest x (slept env k s))) =
        (outbox (slept env k s))(unat (my_id A) \<mapsto> (unat (dest_peer CID SID), take (unat len) data))"
    show ?thesis
      by (rule exI[of _ k]) (use k c o in \<open>cases "outbox (slept env k s) (unat (my_id A)) = None"; auto\<close>)
  qed
qed

text \<open>Client 3 sends while its own slot holds an earlier message, which its addressee takes during the third sleep.\<close>

definition pending_state :: fee_state where
  "pending_state = example_state\<lparr>mail := (mail example_state)(slot_off example_globals 3 :=
     (mail example_state (slot_off example_globals 3))\<lparr>buflen := 1\<rparr>)\<rparr>"

definition taking_env :: wait_env where
  "taking_env = example_env\<lparr>sleep := (\<lambda>k d s. if k = 2 \<and> d = 5 \<and> valid_id (glob s) 3
     then s\<lparr>mail := (mail s)(slot_off (glob s) 3 := (mail s (slot_off (glob s) 3))\<lparr>buflen := 0\<rparr>)\<rparr> else s)\<rparr>"

lemma taking_env_benign: "benign taking_env ap"
proof -
  have "fee_inv (s\<lparr>mail := (mail s)(slot_off (glob s) 3 := (mail s (slot_off (glob s) 3))\<lparr>buflen := 0\<rparr>)\<rparr>)"
    if "fee_inv s" "valid_id (glob s) 3" for s
    using fee_inv_slot[OF that] payload_size_pos[OF fee_inv_globals[OF that(1)]]
    by (intro fee_inv_mail_upd[OF that]) (simp add: slot_ok_def)
  then show ?thesis by (simp add: benign_def taking_env_def keeps_adapter_def)
qed

lemma pending_state_inv: "fee_inv pending_state"
proof -
  have g: "valid_id (glob example_state) 3" "glob example_state = example_globals" by code_simp+
  have "1 < payload_size example_globals" by code_simp
  with fee_inv_slot[OF example_state_inv g(1)]
  have "fee_inv (example_state\<lparr>mail := (mail example_state)(slot_off (glob example_state) 3 :=
     (mail example_state (slot_off (glob example_state) 3))\<lparr>buflen := 1\<rparr>)\<rparr>)"
    by (intro fee_inv_mail_upd[OF example_state_inv g(1)]) (simp add: slot_ok_def g(2))
  then show ?thesis by (simp add: pending_state_def g(2))
qed

theorem send_polls_witness:
  "\<exists>s'. FEE_create_outgoing taking_env 500 27 ''hello'' 5 0xA000 pending_state = Some (5, s') \<and> outbox s' 3 = Some (5, ''hello'')"
proof -
  let ?T = "jiffies taking_env 0 + PRIOR_RESP_WAIT taking_env" and ?o = "\<lambda>k. outbox (slept taking_env k pending_state) 3"
  have a: "adapters pending_state 0xA000 = Some example_adapter" "my_id example_adapter = 3"
    by (simp_all add: pending_state_def example_state_def example_adapter_def)
  have e: "send_error (glob pending_state) 500 27 5 = None" "dest_peer 500 27 = 5" "s32 5 = 5" by code_simp+
  have c: "clock_runs taking_env" unfolding clock_runs_def by (rule exI[of _ 4]) code_simp
  have o: "?o 0 \<noteq> None" "?o 1 \<noteq> None" "?o 2 \<noteq> None" "?o 3 = None" by code_simp+
  have t: "time_before (look taking_env 0) ?T" "time_before (look taking_env 1) ?T" "time_before (look taking_env 2) ?T"
    by code_simp+
  have n: "unat (my_id example_adapter) = 3" "unat (dest_peer 500 27) = 5" "take (unat (5 :: uint64)) ''hello'' = ''hello''"
    "s32 (uint (5 :: uint64)) = 5" "unat (5 :: uint64) \<le> length ''hello''"
    by (simp_all add: a(2) e(2,3))
  obtain k s' where k: "\<forall>j<k. ?o j \<noteq> None \<and> time_before (look taking_env j) ?T"
    and s': "if ?o k = None
      then FEE_create_outgoing taking_env 500 27 ''hello'' 5 0xA000 pending_state = Some (5, s') \<and>
        outbox s' = (outbox (slept taking_env k pending_state))(3 \<mapsto> (5, ''hello''))
      else FEE_create_outgoing taking_env 500 27 ''hello'' 5 0xA000 pending_state = Some (err ERESTARTSYS, s') \<and>
        outbox s' = outbox (slept taking_env k pending_state) \<and> \<not> time_before (look taking_env k) ?T"
    using send_polls[OF pending_state_inv a(1) taking_env_benign c e(1) n(5), unfolded n(1-4)] by (elim exE conjE) (rule that)
  have "k \<le> 3" using k o(4) by (meson not_le)
  then have "k = 3" using s' o(1-3) t by (cases "k = 0 \<or> k = 1 \<or> k = 2") auto
  then show ?thesis using s' o(4) by simp
qed

text \<open>C37: a send is not serialised against another one through the same adapter. Both the user's write and the answer of the
  link layer, in the interrupt, store into the adapter's own slot; if the second runs completely between the last look of
  the first and its stores, both return success, both ring, and the first overwrites the message of the second.\<close>

theorem sends_unserialised:
  assumes "fee_inv s" "adapters s ap = Some A" "outbox s (unat (my_id A)) = None"
    and "send_error (glob s) CID SID len = None" "unat len \<le> length data"
    and "send_error (glob s) CID' SID' len' = None" "unat len' \<le> length data'"
  shows "wait_hw_ready env ap (jiffies env 0 + PRIOR_RESP_WAIT env) 0 1 0 s = Some (0, s) \<and>
    (\<exists>s1 s2. FEE_create_outgoing env' CID' SID' data' len' ap s = Some (s32 (uint len'), s1) \<and>
       outbox s1 = (outbox s)(unat (my_id A) \<mapsto> (unat (dest_peer CID' SID'), take (unat len') data')) \<and>
       post_outgoing (dest_peer CID SID) data len ap s1 = Some (s32 (uint len), s2) \<and>
       outbox s2 = (outbox s)(unat (my_id A) \<mapsto> (unat (dest_peer CID SID), take (unat len) data)) \<and>
       doorbells s2 = doorbells s @ [(ap, ringer (ucast (dest_peer CID' SID')) (my_id A)),
                                     (ap, ringer (ucast (dest_peer CID SID)) (my_id A))])"
proof -
  define u where "u = note_longest (jiffies env' 0 + PRIOR_RESP_WAIT env') s"
  have u: "fee_inv u" "adapters u ap = Some A" "outbox u = outbox s" "doorbells u = doorbells s" "glob u = glob s"
    using assms(1,2) by (simp_all add: u_def) (simp add: note_longest_def)
  let ?t = "sent ap A (dest_peer CID' SID') data' len' u"
  note e = send_error_None(1,2)[OF assms(4)] and e' = send_error_None(1,2)[OF assms(6)]
  have t: "fee_inv ?t" "adapters ?t ap = Some A" "unat len < payload_size (glob ?t)"
    using sent_inv[OF u(1,2) _ assms(7)] e'(1) u(2,5) e(1) by simp_all
  have "wait_hw_ready env ap (jiffies env 0 + PRIOR_RESP_WAIT env) 0 1 0 s = Some (0, s)"
    by (rule wait_free[OF assms(1-3)])
  moreover have "FEE_create_outgoing env' CID' SID' data' len' ap s = Some (s32 (uint len'), ?t)"
    unfolding u_def by (rule create_outgoing_idle[OF assms(1-3,6,7)])
  ultimately show ?thesis
    using sent_outbox[OF u(1,2) e'(2) assms(7)] sent_outbox[OF t(1,2) e(2) assms(5)] post_outgoing_sent[OF t assms(5)] u(3,4)
    by simp
qed

theorem sends_unserialised_witness:
  "\<exists>s1 s2. FEE_create_outgoing example_env 2 GENZ_FEE_SID_CID_IS_PEER_ID ''pong'' 4 0xA000 example_state = Some (4, s1) \<and>
     outbox s1 3 = Some (2, ''pong'') \<and> post_outgoing 5 ''hello'' 5 0xA000 s1 = Some (5, s2) \<and> outbox s2 3 = Some (5, ''hello'')"
proof -
  have a: "adapters example_state 0xA000 = Some example_adapter" "my_id example_adapter = 3"
    by (simp_all add: example_state_def example_adapter_def)
  have e: "send_error (glob example_state) 500 27 5 = None"
    "send_error (glob example_state) 2 GENZ_FEE_SID_CID_IS_PEER_ID 4 = None" by code_simp+
  have v: "dest_peer 500 27 = 5" "dest_peer 2 GENZ_FEE_SID_CID_IS_PEER_ID = 2" "outbox example_state 3 = None"
    "s32 5 = 5" "s32 4 = 4" by code_simp+
  from sends_unserialised[OF example_state_inv a(1) _ e(1) _ e(2), of "''hello''" "''pong''" example_env example_env]
  show ?thesis by (auto simp: a(2) v)
qed

text \<open>C23: \<open>FEE_release_incoming\<close> hands the slot the adapter holds back to its sender: exactly that
  message disappears from the mailbox, the adapter can receive again and its lock is free, with the
  invariant kept. Called with the lock held (by the interrupt handler on the same processor) it never
  returns, and called without an incoming message it dereferences NULL.\<close>

theorem release_incoming_result:
  assumes "fee_inv s" "adapters s ap = Some A"
  shows "(incoming_slot_lock A \<or> incoming_slot A = NULL \<longrightarrow> FEE_release_incoming ap s = None) \<and>
    (\<not> incoming_slot_lock A \<and> incoming_slot A \<noteq> NULL \<longrightarrow>
      (\<exists>n s'. valid_id (glob s) n \<and> incoming_slot A = globals A + slot_off (glob s) n \<and>
         FEE_release_incoming ap s = Some s' \<and> fee_inv s' \<and> outbox s' = (outbox s)(n := None) \<and>
         adapters s' = (adapters s)(ap \<mapsto> A\<lparr>incoming_slot := NULL\<rparr>)))"
proof (intro conjI impI)
  assume "incoming_slot_lock A \<or> incoming_slot A = NULL"
  then show "FEE_release_incoming ap s = None"
    using assms(2) by (auto simp: FEE_release_incoming_def spin_lock_def rd_slot_def wr_adapter_def)
next
  assume h: "\<not> incoming_slot_lock A \<and> incoming_slot A \<noteq> NULL"
  obtain n where n: "valid_id (glob s) n" "incoming_slot A = globals A + slot_off (glob s) n"
    using rd_incoming_slot[OF fee_inv_globals[OF assms(1)] fee_inv_adapter[OF assms]] h by blast
  have "A\<lparr>incoming_slot := NULL, incoming_slot_lock := False\<rparr> = A\<lparr>incoming_slot := NULL\<rparr>"
    using h by simp
  then have "adapters (released ap A n s) = (adapters s)(ap \<mapsto> A\<lparr>incoming_slot := NULL\<rparr>)"
    by (simp add: released_def)
  moreover have "FEE_release_incoming ap s = Some (released ap A n s)"
    using release_incoming_held[OF assms _ n] h by blast
  ultimately show "\<exists>n s'. valid_id (glob s) n \<and> incoming_slot A = globals A + slot_off (glob s) n \<and>
         FEE_release_incoming ap s = Some s' \<and> fee_inv s' \<and> outbox s' = (outbox s)(n := None) \<and>
         adapters s' = (adapters s)(ap \<mapsto> A\<lparr>incoming_slot := NULL\<rparr>)"
    using n released_inv[OF assms n(1)] released_outbox[OF fee_inv_globals[OF assms(1)] n(1)] by blast
qed

definition receiving_adapter :: FEE_adapter where
  "receiving_adapter = example_adapter\<lparr>incoming_slot := 0x20A00\<rparr>"

definition receiving_state :: fee_state where
  "receiving_state = wr_adapter 0xA000 receiving_adapter example_state"

lemma receiving_state_inv: "fee_inv receiving_state"
  unfolding receiving_state_def
proof (rule fee_inv_adapter_upd[OF example_state_inv])
  have "valid_id example_globals 5 \<and> (0x20A00 :: addr) = 0x20000 + slot_off example_globals 5"
    by code_simp
  then show "adapter_ok (glob example_state) receiving_adapter"
    using fee_inv_adapter[OF example_state_inv, of "0xA000" example_adapter]
    by (auto simp: adapter_ok_def receiving_adapter_def example_state_def example_adapter_def)
qed simp

theorem release_incoming_result_witness:
  "\<exists>n s'. valid_id (glob receiving_state) n \<and>
     incoming_slot receiving_adapter = globals receiving_adapter + slot_off (glob receiving_state) n \<and>
     FEE_release_incoming 0xA000 receiving_state = Some s' \<and> fee_inv s' \<and>
     outbox s' = (outbox receiving_state)(n := None)"
proof -
  have a: "adapters receiving_state 0xA000 = Some receiving_adapter"
    by (simp add: receiving_state_def wr_adapter_def)
  have "\<not> incoming_slot_lock receiving_adapter \<and> incoming_slot receiving_adapter \<noteq> NULL"
    by (simp add: receiving_adapter_def example_adapter_def)
  with release_incoming_result[OF receiving_state_inv a] show ?thesis by blast
qed



end
