(* ===== verification/Fee_Link.thy ===== *)
theory Fee_Link
  imports Fee_IVSHMSG
begin

text \<open>
  The link-level messages, \<open>shim_bridge/fee_link.c\<close>: \<open>FEE_link_request\<close> runs in the interrupt handler
  with the adapter's lock held; it answers a ping, the switch's question for the peer attributes and a
  control write that assigns the component's ids, and leaves everything else to the reader. The lemmas
  classify the messages, show that every reply fits the buffer on the stack, and that a control write is
  read back exactly as it was printed.
\<close>

section \<open>Formats\<close>

definition LINK_CTL_PEER_ATTRIBUTE :: string where
  "LINK_CTL_PEER_ATTRIBUTE = ''Link CTL Peer-Attribute''"

definition LINK_CTL_ACK :: "string \<Rightarrow> int \<Rightarrow> int \<Rightarrow> string" where
  "LINK_CTL_ACK cclass_str cid0 sid0 = format [Lit ''Link CTL ACK C-Class='', Arg (FS cclass_str),
     Lit '',CID0='', Arg (FD cid0), Lit '',SID0='', Arg (FD sid0)]"

definition CTL_WRITE_0_CID_SID :: "scan_piece list" where
  "CTL_WRITE_0_CID_SID = [SLit ''CTL-Write Space=0,PFMCID='', SInt, SLit '',PFMSID='', SInt,
     SLit '',CID='', SInt, SLit '',SID='', SInt, SLit '',Tag='', SInt]"

definition STANDALONE_ACKNOWLEDGMENT :: "int \<Rightarrow> string" where
  "STANDALONE_ACKNOWLEDGMENT tag =
     format [Lit ''Standalone Acknowledgment Tag='', Arg (FD tag), Lit '',Reason=OK'']"

text \<open>\<open>sprintf\<close> into an array of \<open>n\<close> bytes: the bytes it stores, if they fit.\<close>

definition sprintf :: "nat \<Rightarrow> string \<Rightarrow> bytes option" where
  "sprintf n out = (if length out < n then Some (out @ [NUL]) else None)"

section \<open>The handler\<close>

datatype irqreturn = IRQ_NONE | IRQ_HANDLED

text \<open>\<open>incoming_slot->buflen = 0; spin_unlock(...)\<close>, the start of every branch that takes the message.\<close>

definition take_message :: "addr \<Rightarrow> addr \<Rightarrow> fee_state \<Rightarrow> fee_state option" where
  "take_message ip ap s = do {
     A \<leftarrow> adapters s ap;
     m \<leftarrow> rd_slot s A ip;
     spin_unlock ap (wr_slot A ip (m\<lparr>buflen := 0\<rparr>) s)
   }"

text \<open>The call of \<open>FEE_create_outgoing\<close> that ends such a branch; its result is dropped.\<close>

definition link_reply ::
  "wait_env \<Rightarrow> addr \<Rightarrow> addr \<Rightarrow> bytes \<Rightarrow> uint64 \<Rightarrow> fee_state \<Rightarrow> (irqreturn \<times> fee_state) option" where
  "link_reply env ip ap data len s = do {
     A \<leftarrow> adapters s ap;
     m \<leftarrow> rd_slot s A ip;
     (_, s') \<leftarrow> FEE_create_outgoing env (s32 (uint (peer_id m))) GENZ_FEE_SID_CID_IS_PEER_ID data len ap s;
     Some (IRQ_HANDLED, s')
   }"

definition FEE_link_request ::
  "wait_env \<Rightarrow> addr \<Rightarrow> addr \<Rightarrow> fee_state \<Rightarrow> (irqreturn \<times> fee_state) option" where
  "FEE_link_request env ip ap s = do {
     A \<leftarrow> adapters s ap;
     m0 \<leftarrow> rd_slot s A ip;
     let m = m0\<lparr>peer_SID := word_of_int GENZ_FEE_SID_DEFAULT, peer_CID := peer_id m0 * 100\<rparr>;
     let s = wr_slot A ip m s;
     if buflen m = 4 \<and> STREQ_N (buf m) ''ping'' 4 then do {
       s1 \<leftarrow> take_message ip ap s;
       link_reply env ip ap (''pong'' @ [NUL]) 4 s1
     }
     else if STREQ_N (buf m) LINK_CTL_PEER_ATTRIBUTE (length LINK_CTL_PEER_ATTRIBUTE) then do {
       s1 \<leftarrow> take_message ip ap s;
       core \<leftarrow> cores s1 (ad_core A);
       outbuf \<leftarrow> (if terminated (Base_C_Class_str core)
                 then sprintf 128 (LINK_CTL_ACK (cstr (Base_C_Class_str core)) (CID0 core) (SID0 core))
                 else None);
       link_reply env ip ap outbuf (of_nat (length (cstr outbuf))) s1
     }
     else if \<not> terminated (buf m) then None
     else case sscanf CTL_WRITE_0_CID_SID (cstr (buf m)) of
       [pfmcid, pfmsid, cid, sid, tag] \<Rightarrow> do {
         s1 \<leftarrow> take_message ip ap s;
         core \<leftarrow> cores s1 (ad_core A);
         let s2 = s1\<lparr>cores := (cores s1)(ad_core A \<mapsto> core\<lparr>PFMCID := pfmcid, PFMSID := pfmsid,
                        CID0 := cid, SID0 := sid, PMCID := - 1\<rparr>)\<rparr>;
         outbuf \<leftarrow> sprintf 128 (STANDALONE_ACKNOWLEDGMENT tag);
         link_reply env ip ap outbuf (of_nat (length (cstr outbuf))) s2
       }
     | _ \<Rightarrow> Some (IRQ_NONE, s)
   }"

section \<open>What a message is\<close>

text \<open>The link-level meaning of a mailslot.\<close>

datatype link_msg =
    Ping
  | PeerAttribute
  | CtlWrite int int int int int
  | NotLink

definition link_kind :: "FEE_mailslot \<Rightarrow> link_msg" where
  "link_kind m =
     (if buflen m = 4 \<and> STREQ_N (buf m) ''ping'' 4 then Ping
      else if STREQ_N (buf m) LINK_CTL_PEER_ATTRIBUTE (length LINK_CTL_PEER_ATTRIBUTE) then PeerAttribute
      else case sscanf CTL_WRITE_0_CID_SID (cstr (buf m)) of
             [pfmcid, pfmsid, cid, sid, tag] \<Rightarrow> CtlWrite pfmcid pfmsid cid sid tag
           | _ \<Rightarrow> NotLink)"

text \<open>The core structure after the message, and the reply.\<close>

fun link_core :: "link_msg \<Rightarrow> genz_core_structure \<Rightarrow> genz_core_structure" where
  "link_core (CtlWrite pfmcid pfmsid cid sid tag) core =
     core\<lparr>PFMCID := pfmcid, PFMSID := pfmsid, CID0 := cid, SID0 := sid, PMCID := - 1\<rparr>"
| "link_core _ core = core"

fun link_answer :: "link_msg \<Rightarrow> genz_core_structure \<Rightarrow> string" where
  "link_answer Ping core = ''pong''"
| "link_answer PeerAttribute core =
     LINK_CTL_ACK (cstr (Base_C_Class_str core)) (CID0 core) (SID0 core)"
| "link_answer (CtlWrite pfmcid pfmsid cid sid tag) core = STANDALONE_ACKNOWLEDGMENT tag"
| "link_answer NotLink core = []"

text \<open>The slot with the sender's ids filled in, and the state after the message has been taken.\<close>

definition annotated :: "nat \<Rightarrow> fee_state \<Rightarrow> fee_state" where
  "annotated n s = s\<lparr>mail := (mail s)(slot_off (glob s) n :=
     (mail s (slot_off (glob s) n))\<lparr>peer_SID := 27, peer_CID := of_nat n * 100\<rparr>)\<rparr>"

definition taken :: "addr \<Rightarrow> FEE_adapter \<Rightarrow> nat \<Rightarrow> fee_state \<Rightarrow> fee_state" where
  "taken ap A n s =
     s\<lparr>mail := (mail s)(slot_off (glob s) n :=
         (mail s (slot_off (glob s) n))\<lparr>peer_SID := 27, peer_CID := of_nat n * 100, buflen := 0\<rparr>),
       adapters := (adapters s)(ap \<mapsto> A\<lparr>incoming_slot_lock := False\<rparr>)\<rparr>"

definition assigned :: "addr \<Rightarrow> link_msg \<Rightarrow> fee_state \<Rightarrow> fee_state" where
  "assigned cp k s = s\<lparr>cores := (case cores s cp of None \<Rightarrow> cores s | Some c \<Rightarrow> (cores s)(cp \<mapsto> link_core k c))\<rparr>"

text \<open>A core structure whose name is a string and whose ids are 32-bit numbers.\<close>

definition core_ok :: "genz_core_structure \<Rightarrow> bool" where
  "core_ok c \<longleftrightarrow> length (Base_C_Class_str c) = 32 \<and> terminated (Base_C_Class_str c) \<and>
     int32_range (CID0 c) \<and> int32_range (SID0 c)"

section \<open>Lemmas\<close>

lemma scan_int_range: "scan_int s = Some (v, r) \<Longrightarrow> int32_range v"
  by (auto simp: scan_int_def Let_def split: if_splits prod.splits)

lemma sscanf_range: "v \<in> set (sscanf ps s) \<Longrightarrow> int32_range v"
proof (induction ps s rule: sscanf.induct)
  case (2 l ps s)
  then show ?case by (cases "match_lit l s") auto
next
  case (3 ps s)
  then show ?case by (cases "scan_int s") (auto dest: scan_int_range)
qed simp

lemma link_kind_CtlWrite:
  assumes "link_kind m = CtlWrite a b c d e"
  shows "sscanf CTL_WRITE_0_CID_SID (cstr (buf m)) = [a, b, c, d, e]" "int32_range e" "int32_range c" "int32_range d"
proof -
  show *: "sscanf CTL_WRITE_0_CID_SID (cstr (buf m)) = [a, b, c, d, e]"
    using assms by (auto simp: link_kind_def split: if_splits list.splits)
  show "int32_range e" "int32_range c" "int32_range d"
    using sscanf_range[of _ CTL_WRITE_0_CID_SID "cstr (buf m)"] unfolding * by simp_all
qed

text \<open>Every answer is a string of less than 128 bytes.\<close>

lemma ack_text: "core_ok c \<Longrightarrow> length (link_answer PeerAttribute c) \<le> 86"
  using length_cstr_terminated[of "Base_C_Class_str c"] length_show_int[of "CID0 c"] length_show_int[of "SID0 c"]
  by (simp add: core_ok_def LINK_CTL_ACK_def format_def)

lemma standalone_text: "int32_range tag \<Longrightarrow> length (STANDALONE_ACKNOWLEDGMENT tag) \<le> 51"
  using length_show_int[of tag] by (simp add: STANDALONE_ACKNOWLEDGMENT_def format_def)

lemma answer_length:
  assumes "core_ok c" "k = link_kind m" "k \<noteq> NotLink"
  shows "length (link_answer k c) \<le> 86"
proof (cases k)
  case (CtlWrite pc ps cid sid tag)
  then have "length (STANDALONE_ACKNOWLEDGMENT tag) \<le> 51"
    using standalone_text link_kind_CtlWrite(2) assms(2) by metis
  then show ?thesis using CtlWrite by simp
qed (use assms ack_text in simp_all)

lemma answer_nonempty: "k \<noteq> NotLink \<Longrightarrow> link_answer k c \<noteq> []"
  by (cases k) (auto simp: LINK_CTL_ACK_def STANDALONE_ACKNOWLEDGMENT_def format_def)

lemma answer_no_NUL [simp]: "NUL \<notin> set (link_answer k c)"
  by (cases k) (auto simp: LINK_CTL_ACK_def STANDALONE_ACKNOWLEDGMENT_def format_def)

lemma sprintf_fits: "length out < n \<Longrightarrow> sprintf n out = Some (out @ [NUL])"
  by (simp add: sprintf_def)

text \<open>The steps of the handler on a slot of the mailbox.\<close>

lemma annotated_simps [simp]:
  "adapters (annotated n s) = adapters s" "cores (annotated n s) = cores s" "glob (annotated n s) = glob s"
  "mail (annotated n s) (slot_off (glob s) n) =
     (mail s (slot_off (glob s) n))\<lparr>peer_SID := 27, peer_CID := of_nat n * 100\<rparr>"
  by (simp_all add: annotated_def)

lemma take_message_annotated:
  assumes "adapters s ap = Some A" "incoming_slot_lock A"
    and "ip = globals A + slot_off (glob s) n" "ip \<noteq> NULL"
  shows "take_message ip ap (annotated n s) = Some (taken ap A n s)"
  using assms
  by (simp add: take_message_def spin_unlock_def wr_slot_def rd_slot_def wr_adapter_def)
    (simp add: annotated_def taken_def)

lemma peer_int:
  assumes "globals_ok G" "valid_id G n"
  shows "s32 (uint (of_nat n :: uint64)) = int n" "dest_peer (int n) GENZ_FEE_SID_CID_IS_PEER_ID = of_nat n"
    "unat (of_nat n :: uint32) = n"
proof -
  have n: "n < 2 ^ 16" using valid_id_le[OF assms(2)] assms(1) by (simp add: globals_ok_def)
  then have "unat (of_nat n :: uint64) = n" "unat (of_nat n :: uint32) = n" by (simp_all add: unat_of_nat)
  then show "s32 (uint (of_nat n :: uint64)) = int n" "unat (of_nat n :: uint32) = n"
    using n by (simp_all add: uint_nat s32_nonneg_id)
  show "dest_peer (int n) GENZ_FEE_SID_CID_IS_PEER_ID = of_nat n"
    by (simp add: dest_peer_def)
qed

lemma link_reply_taken:
  assumes "fee_inv s" "adapters s ap = Some A" "valid_id (glob s) n"
    and "ip = globals A + slot_off (glob s) n" "ip \<noteq> NULL"
  shows "link_reply env ip ap data len (assigned cp k (taken ap A n s)) =
    map_option (\<lambda>(r, t). (IRQ_HANDLED, t))
      (FEE_create_outgoing env (int n) GENZ_FEE_SID_CID_IS_PEER_ID data len ap (assigned cp k (taken ap A n s)))"
proof -
  have "peer_id (mail s (slot_off (glob s) n)) = of_nat n"
    using fee_inv_slot[OF assms(1,3)] by (simp add: slot_ok_def)
  then show ?thesis
    using assms(2,4,5) peer_int(1)[OF fee_inv_globals[OF assms(1)] assms(3)]
    by (cases "FEE_create_outgoing env (int n) GENZ_FEE_SID_CID_IS_PEER_ID data len ap
        (assigned cp k (taken ap A n s))")
      (auto simp: link_reply_def assigned_def rd_slot_def taken_def)
qed

text \<open>The whole handler: nothing but the ids for a message that is not for the link, and otherwise the
  message taken, the core updated and the answer sent.\<close>

lemma link_kind_annotated [simp]:
  "link_kind (m\<lparr>peer_SID := x, peer_CID := y\<rparr>) = link_kind m"
  by (simp add: link_kind_def)

lemma assigned_id: "k = Ping \<or> k = PeerAttribute \<or> k = NotLink \<Longrightarrow> assigned cp k s = s"
  by (auto simp: assigned_def map_upd_triv split: option.splits)

lemma taken_cores [simp]: "cores (taken ap A n s) = cores s"
  by (simp add: taken_def)

lemma link_request_start:
  assumes "adapters s ap = Some A" "ip = globals A + slot_off (glob s) n" "ip \<noteq> NULL"
    and "slot_ok G n (mail s (slot_off (glob s) n))"
  shows "FEE_link_request env ip ap s =
    (let m = mail s (slot_off (glob s) n) in
     if buflen m = 4 \<and> STREQ_N (buf m) ''ping'' 4 then do {
       s1 \<leftarrow> take_message ip ap (annotated n s);
       link_reply env ip ap (''pong'' @ [NUL]) 4 s1
     }
     else if STREQ_N (buf m) LINK_CTL_PEER_ATTRIBUTE (length LINK_CTL_PEER_ATTRIBUTE) then do {
       s1 \<leftarrow> take_message ip ap (annotated n s);
       core \<leftarrow> cores s1 (ad_core A);
       outbuf \<leftarrow> (if terminated (Base_C_Class_str core)
                 then sprintf 128 (LINK_CTL_ACK (cstr (Base_C_Class_str core)) (CID0 core) (SID0 core))
                 else None);
       link_reply env ip ap outbuf (of_nat (length (cstr outbuf))) s1
     }
     else case sscanf CTL_WRITE_0_CID_SID (cstr (buf m)) of
       [pfmcid, pfmsid, cid, sid, tag] \<Rightarrow> do {
         s1 \<leftarrow> take_message ip ap (annotated n s);
         core \<leftarrow> cores s1 (ad_core A);
         outbuf \<leftarrow> sprintf 128 (STANDALONE_ACKNOWLEDGMENT tag);
         link_reply env ip ap outbuf (of_nat (length (cstr outbuf)))
           (s1\<lparr>cores := (cores s1)(ad_core A \<mapsto> core\<lparr>PFMCID := pfmcid, PFMSID := pfmsid,
                        CID0 := cid, SID0 := sid, PMCID := - 1\<rparr>)\<rparr>)
       }
     | _ \<Rightarrow> Some (IRQ_NONE, annotated n s))"
proof -
  have eq: "wr_slot A ip ((mail s (slot_off (glob s) n))\<lparr>peer_SID := word_of_int GENZ_FEE_SID_DEFAULT,
      peer_CID := peer_id (mail s (slot_off (glob s) n)) * 100\<rparr>) s = annotated n s"
    using assms(2,4) by (simp add: wr_slot_def annotated_def GENZ_FEE_SID_DEFAULT_def slot_ok_def)
  have "terminated (buf (mail s (slot_off (glob s) n)))" using assms(4) by (simp add: slot_ok_def)
  moreover have "rd_slot s A ip = Some (mail s (slot_off (glob s) n))"
    using assms(2,3) by (simp add: rd_slot_def)
  ultimately show ?thesis
    unfolding FEE_link_request_def assms(1) Let_def bind.simps(2)
    by (simp only: bind.simps(2) eq) (simp cong: if_cong list.case_cong)
qed

lemma link_request_none:
  assumes "adapters s ap = Some A" "ip = globals A + slot_off (glob s) n" "ip \<noteq> NULL"
    and "slot_ok G n (mail s (slot_off (glob s) n))"
    and "link_kind (mail s (slot_off (glob s) n)) = NotLink"
  shows "FEE_link_request env ip ap s = Some (IRQ_NONE, annotated n s)"
  using assms(5) unfolding link_request_start[OF assms(1-4)]
  by (auto simp: link_kind_def Let_def split: if_splits list.splits)

lemma link_request_handled:
  fixes s n k
  assumes "fee_inv s" "adapters s ap = Some A" "incoming_slot_lock A" "valid_id (glob s) n"
    and "ip = globals A + slot_off (glob s) n" "ip \<noteq> NULL"
    and "link_kind (mail s (slot_off (glob s) n)) = k" "k \<noteq> NotLink"
    and "k = Ping \<or> cores s (ad_core A) = Some core \<and> core_ok core"
  shows "FEE_link_request env ip ap s = map_option (\<lambda>(r, t). (IRQ_HANDLED, t))
    (FEE_create_outgoing env (int n) GENZ_FEE_SID_CID_IS_PEER_ID (link_answer k core @ [NUL])
       (of_nat (length (link_answer k core))) ap (assigned (ad_core A) k (taken ap A n s)))"
proof -
  let ?m = "mail s (slot_off (glob s) n)"
  note start = link_request_start[OF assms(2,5,6) fee_inv_slot[OF assms(1,4)], of env]
  note tk = take_message_annotated[OF assms(2,3,5,6)]
  note reply = link_reply_taken[OF assms(1,2,4,5,6), where env = env and k = k and cp = "ad_core A"]
  have len: "k \<noteq> Ping \<Longrightarrow> length (link_answer k core) < 128"
    using answer_length[OF _ assms(7)[symmetric] assms(8)] assms(9) by force
  have str: "cstr (link_answer k core @ [NUL]) = link_answer k core" by (rule cstr_NUL) simp
  show ?thesis
  proof (cases k)
    case Ping
    then have "buflen ?m = 4 \<and> STREQ_N (buf ?m) ''ping'' 4"
      using assms(7) by (auto simp: link_kind_def split: if_splits list.splits)
    with Ping show ?thesis
      using reply[of "''pong'' @ [NUL]" 4] unfolding start by (simp add: Let_def tk assigned_id)
  next
    case PeerAttribute
    then have "\<not> (buflen ?m = 4 \<and> STREQ_N (buf ?m) ''ping'' 4)"
      "STREQ_N (buf ?m) LINK_CTL_PEER_ATTRIBUTE (length LINK_CTL_PEER_ATTRIBUTE)"
      using assms(7) by (auto simp: link_kind_def split: if_splits list.splits)
    with PeerAttribute show ?thesis
      using reply[of "link_answer k core @ [NUL]" "of_nat (length (link_answer k core))"] assms(9) len str
      unfolding start by (auto simp: Let_def tk assigned_id sprintf_fits core_ok_def)
  next
    case (CtlWrite a b c d e)
    then have scan: "sscanf CTL_WRITE_0_CID_SID (cstr (buf ?m)) = [a, b, c, d, e]"
      and "\<not> (buflen ?m = 4 \<and> STREQ_N (buf ?m) ''ping'' 4)"
      "\<not> STREQ_N (buf ?m) LINK_CTL_PEER_ATTRIBUTE (length LINK_CTL_PEER_ATTRIBUTE)"
      using assms(7) link_kind_CtlWrite(1) by (auto simp: link_kind_def split: if_splits)
    with CtlWrite show ?thesis
      using reply[of "link_answer k core @ [NUL]" "of_nat (length (link_answer k core))"] assms(9) len str
      unfolding start by (auto simp: Let_def tk sprintf_fits assigned_def)
  qed (use assms(8) in simp)
qed

lemma annotated_inv:
  assumes "fee_inv s" "valid_id (glob s) n"
  shows "fee_inv (annotated n s)"
proof -
  from fee_inv_slot[OF assms] have "slot_ok (glob s) n
      ((mail s (slot_off (glob s) n))\<lparr>peer_SID := 27, peer_CID := of_nat n * 100\<rparr>)"
    by (simp add: slot_ok_def)
  from fee_inv_mail_upd[OF assms this] show ?thesis by (simp add: annotated_def)
qed

lemma taken_inv:
  assumes "fee_inv s" "adapters s ap = Some A" "valid_id (glob s) n"
  shows "fee_inv (assigned cp k (taken ap A n s))"
proof -
  let ?s = "s\<lparr>mail := (mail s)(slot_off (glob s) n :=
    (mail s (slot_off (glob s) n))\<lparr>peer_SID := 27, peer_CID := of_nat n * 100, buflen := 0\<rparr>)\<rparr>"
  have "fee_inv ?s"
    using fee_inv_slot[OF assms(1,3)] payload_size_pos[OF fee_inv_globals[OF assms(1)]]
    by (intro fee_inv_mail_upd[OF assms(1,3)]) (simp add: slot_ok_def)
  moreover have "ap \<noteq> NULL" "adapter_ok (glob ?s) (A\<lparr>incoming_slot_lock := False\<rparr>)"
    using assms(1,2) by (auto simp: fee_inv_def adapter_ok_def)
  ultimately have "fee_inv (wr_adapter ap (A\<lparr>incoming_slot_lock := False\<rparr>) ?s)"
    by (rule fee_inv_adapter_upd)
  then show ?thesis by (simp add: assigned_def taken_def wr_adapter_def)
qed

lemma annotated_outbox:
  assumes "globals_ok (glob s)" "valid_id (glob s) n"
  shows "outbox (annotated n s) = outbox s"
proof
  fix j
  show "outbox (annotated n s) j = outbox s j"
    unfolding annotated_def outbox_upd[OF assms] using assms(2) by (simp add: outbox_def slot_view_def)
qed

lemma taken_outbox:
  assumes "globals_ok (glob s)" "valid_id (glob s) n"
  shows "outbox (assigned cp k (taken ap A n s)) = (outbox s)(n := None)"
proof -
  let ?s = "s\<lparr>mail := (mail s)(slot_off (glob s) n :=
    (mail s (slot_off (glob s) n))\<lparr>peer_SID := 27, peer_CID := of_nat n * 100, buflen := 0\<rparr>)\<rparr>"
  have "outbox (assigned cp k (taken ap A n s)) = outbox ?s"
    by (simp add: fun_eq_iff outbox_def taken_def assigned_def)
  then show ?thesis by (simp add: outbox_upd[OF assms] slot_view_def)
qed

lemma taken_simps [simp]:
  "adapters (assigned cp k (taken ap A n s)) = (adapters s)(ap \<mapsto> A\<lparr>incoming_slot_lock := False\<rparr>)"
  "glob (assigned cp k (taken ap A n s)) = glob s"
  "doorbells (assigned cp k (taken ap A n s)) = doorbells s"
  by (simp_all add: assigned_def taken_def)

lemma assigned_core: "cores s cp = Some c \<Longrightarrow> cores (assigned cp k s) = (cores s)(cp \<mapsto> link_core k c)"
  by (simp add: assigned_def)

lemma slot_pointer_nonnull:
  "fee_inv s \<Longrightarrow> adapters s ap = Some A \<Longrightarrow> valid_id (glob s) n \<Longrightarrow> globals A + slot_off (glob s) n \<noteq> NULL"
  using slot_addr_nonnull[OF fee_inv_globals _ valid_id_le] fee_inv_adapter by (simp add: adapter_ok_def)

text \<open>The checks of \<open>FEE_create_outgoing\<close> pass for an answer to a client or the server, if a slot is
  large enough.\<close>

lemma answer_accepted:
  assumes "globals_ok G" "valid_id G n" "ans \<noteq> []" "length ans < payload_size G"
  shows "send_error G (int n) GENZ_FEE_SID_CID_IS_PEER_ID (of_nat (length ans)) = None"
    and "unat (of_nat (length ans) :: uint64) = length ans"
proof -
  have "unat (slotsize G) < 2 ^ 64" using unsigned_less[of "slotsize G"] by simp
  then have "payload_size G < 2 ^ 64" by (simp add: payload_size_def)
  then have l: "unat (of_nat (length ans) :: uint64) = length ans"
    using assms(4) by (simp add: unat_of_nat)
  moreover have "(of_nat (length ans) :: uint64) \<noteq> 0"
    using l assms(3) by (metis length_0_conv unat_0)
  ultimately show "send_error G (int n) GENZ_FEE_SID_CID_IS_PEER_ID (of_nat (length ans)) = None"
    using peer_int[OF assms(1,2)] valid_id_pos[OF assms(1,2)] valid_id_server[OF assms(1,2)] assms(4)
    by (simp add: send_error_def)
  show "unat (of_nat (length ans) :: uint64) = length ans" by (fact l)
qed

lemma link_request_answers:
  fixes s n A ap core
  defines "k \<equiv> link_kind (mail s (slot_off (glob s) n))"
  defines "ans \<equiv> link_answer k core"
  assumes "fee_inv s" "adapters s ap = Some A" "incoming_slot_lock A" "valid_id (glob s) n"
    and "k \<noteq> NotLink" "k = Ping \<or> cores s (ad_core A) = Some core \<and> core_ok core"
    and "n = unat (my_id A) \<or> outbox s (unat (my_id A)) = None" "86 < payload_size (glob s)"
  shows "\<exists>s'. FEE_link_request env (globals A + slot_off (glob s) n) ap s = Some (IRQ_HANDLED, s') \<and>
    fee_inv s' \<and> outbox s' = (outbox s)(n := None, unat (my_id A) \<mapsto> (n, ans)) \<and>
    doorbells s' = doorbells s @ [(ap, ringer (of_nat n) (my_id A))] \<and>
    adapters s' = (adapters s)(ap \<mapsto> A\<lparr>incoming_slot_lock := False\<rparr>) \<and>
    cores s' = cores (assigned (ad_core A) k s)"
proof -
  let ?t = "assigned (ad_core A) k (taken ap A n s)"
  let ?A = "A\<lparr>incoming_slot_lock := False\<rparr>"
  let ?u = "note_longest (jiffies env 0 + PRIOR_RESP_WAIT env) ?t"
  note G = fee_inv_globals[OF assms(3)]
  have ans: "ans \<noteq> []" "length ans < payload_size (glob s)"
    using answer_nonempty[OF assms(7)] answer_length[OF _ k_def[THEN meta_eq_to_obj_eq] assms(7), of core]
      assms(8,10) by (cases "k = Ping"; auto simp: ans_def)+
  note acc = answer_accepted[OF G assms(6) ans]
  have t: "fee_inv ?t" "adapters ?t ap = Some ?A"
    using taken_inv[OF assms(3,4,6)] by simp_all
  have free: "outbox ?t (unat (my_id ?A)) = None"
    using assms(9) by (auto simp: taken_outbox[OF G assms(6)])
  have u: "fee_inv ?u" "adapters ?u ap = Some ?A" using t by simp_all
  have send: "FEE_create_outgoing env (int n) GENZ_FEE_SID_CID_IS_PEER_ID (ans @ [NUL]) (of_nat (length ans)) ap ?t =
      Some (s32 (uint (of_nat (length ans) :: uint64)), sent ap ?A (of_nat n) (ans @ [NUL]) (of_nat (length ans)) ?u)"
    using create_outgoing_idle[OF t free, of "int n" GENZ_FEE_SID_CID_IS_PEER_ID "of_nat (length ans)" "ans @ [NUL]" env]
      acc peer_int(2)[OF G assms(6)] by simp
  have req: "FEE_link_request env (globals A + slot_off (glob s) n) ap s =
      Some (IRQ_HANDLED, sent ap ?A (of_nat n) (ans @ [NUL]) (of_nat (length ans)) ?u)"
    using link_request_handled[OF assms(3-6) refl slot_pointer_nonnull[OF assms(3,4,6)]
        k_def[THEN meta_eq_to_obj_eq, symmetric] assms(7,8), of env] send by (simp add: ans_def)
  have inv: "fee_inv (sent ap ?A (of_nat n) (ans @ [NUL]) (of_nat (length ans)) ?u)"
    using acc(2) ans by (intro sent_inv[OF u]) simp_all
  have "of_nat (length ans) \<noteq> (0 :: uint64)" using acc(2) ans by auto
  then have out: "outbox (sent ap ?A (of_nat n) (ans @ [NUL]) (of_nat (length ans)) ?u) =
      (outbox s)(n := None, unat (my_id A) \<mapsto> (n, ans))"
    using sent_outbox[OF u, of "of_nat (length ans)" "ans @ [NUL]" "of_nat n"] acc(2)
      taken_outbox[OF G assms(6)] peer_int(3)[OF G assms(6)] by simp
  have "cores ?u = cores (assigned (ad_core A) k s)" "doorbells ?u = doorbells s"
    by (cases "cores s (ad_core A)"; simp add: note_longest_def assigned_def)
      (simp add: note_longest_def)
  moreover have "ucast (of_nat n :: uint32) = (of_nat n :: uint16)"
  proof -
    have "n < 2 ^ 16" using valid_id_le[OF assms(6)] G by (simp add: globals_ok_def)
    then have "take_bit 32 n = n" by (intro take_bit_nat_eq_self) simp
    then show ?thesis by (simp add: unsigned_of_nat)
  qed
  ultimately show ?thesis using req inv out by simp
qed

section \<open>The control write in text\<close>

text \<open>What the switch prints for a control write.\<close>

definition ctl_write_text :: "int \<Rightarrow> int \<Rightarrow> int \<Rightarrow> int \<Rightarrow> int \<Rightarrow> string" where
  "ctl_write_text pfmcid pfmsid cid sid tag =
     format [Lit ''CTL-Write Space=0,PFMCID='', Arg (FD pfmcid), Lit '',PFMSID='', Arg (FD pfmsid),
       Lit '',CID='', Arg (FD cid), Lit '',SID='', Arg (FD sid), Lit '',Tag='', Arg (FD tag)]"

lemma not_digit_comma [simp]: "\<not> starts_digit 10 (CHR '','' # r)" "\<not> starts_digit 10 []"
  by (simp_all add: starts_digit_def digit_val.simps)

lemma scan_ctl_write:
  assumes "int32_range a" "int32_range b" "int32_range c" "int32_range d" "int32_range e"
  shows "sscanf CTL_WRITE_0_CID_SID (ctl_write_text a b c d e) = [a, b, c, d, e]"
  using assms scan_show_int[of "[]" e]
  by (simp add: CTL_WRITE_0_CID_SID_def ctl_write_text_def format_def is_space_def scan_show_int s32_id)

lemma ctl_write_kind:
  assumes "int32_range a" "int32_range b" "int32_range c" "int32_range d" "int32_range e"
    and "cstr (buf m) = ctl_write_text a b c d e"
  shows "link_kind m = CtlWrite a b c d e"
proof -
  have "hd (ctl_write_text a b c d e) = CHR ''C''" by (simp add: ctl_write_text_def format_def)
  then have "\<not> STREQ_N (buf m) ''ping'' 4"
    "\<not> STREQ_N (buf m) LINK_CTL_PEER_ATTRIBUTE (length LINK_CTL_PEER_ATTRIBUTE)"
    using assms(6) by (auto simp: STREQ_N_def LINK_CTL_PEER_ATTRIBUTE_def cstr_def ctl_write_text_def format_def)
  then show ?thesis by (simp add: link_kind_def assms(6) scan_ctl_write[OF assms(1-5)])
qed

text \<open>The state of the witnesses: client 5 has sent a text to client 3, whose handler has taken the
  lock.\<close>

definition busy_adapter :: FEE_adapter where
  "busy_adapter = example_adapter\<lparr>incoming_slot_lock := True, ad_core := 0x9000\<rparr>"

definition inbox_state :: "string \<Rightarrow> fee_state" where
  "inbox_state msg = wr_adapter 0xA000 busy_adapter
     (example_state\<lparr>mail := (mail example_state)(slot_off (glob example_state) 5 := (blank_slot 5)
       \<lparr>buflen := of_nat (length msg), last_responder := 3, buf := msg @ replicate (384 - length msg) NUL\<rparr>)\<rparr>)"

lemma inbox_state_simps:
  "adapters (inbox_state msg) 0xA000 = Some busy_adapter" "glob (inbox_state msg) = example_globals"
  "cores (inbox_state msg) 0x9000 = Some bridge_core" "valid_id example_globals 5"
  "mail (inbox_state msg) (slot_off example_globals 5) = (blank_slot 5)\<lparr>buflen := of_nat (length msg),
     last_responder := 3, buf := msg @ replicate (384 - length msg) NUL\<rparr>"
  "incoming_slot_lock busy_adapter" "ad_core busy_adapter = 0x9000" "my_id busy_adapter = 3"
  "globals busy_adapter = 0x20000"
  by (simp_all add: inbox_state_def wr_adapter_def example_state_def busy_adapter_def example_adapter_def
      valid_id_def example_globals_def)

lemma inbox_state_inv:
  assumes "length msg < 384"
  shows "fee_inv (inbox_state msg)"
  unfolding inbox_state_def
proof (rule fee_inv_adapter_upd[OF fee_inv_mail_upd[OF example_state_inv]])
  have g: "glob example_state = example_globals" by (simp add: example_state_def)
  show v: "valid_id (glob example_state) 5" by (simp add: g inbox_state_simps)
  show "slot_ok (glob example_state) 5 ((blank_slot 5)\<lparr>buflen := of_nat (length msg), last_responder := 3,
      buf := msg @ replicate (384 - length msg) NUL\<rparr>)"
    using assms by (simp add: g slot_ok_def blank_slot_def payload_size_def example_globals_def
        terminated_def unat_of_nat)
  have "adapter_ok example_globals example_adapter"
    using fee_inv_adapter[OF example_state_inv, of "0xA000" example_adapter] by (simp add: example_state_def)
  then show "adapter_ok (glob (example_state\<lparr>mail := (mail example_state)(slot_off (glob example_state) 5 :=
      (blank_slot 5)\<lparr>buflen := of_nat (length msg), last_responder := 3,
        buf := msg @ replicate (384 - length msg) NUL\<rparr>)\<rparr>)) busy_adapter"
    by (simp add: g adapter_ok_def busy_adapter_def)
qed simp

lemma inbox_state_free: "outbox (inbox_state msg) 3 = None"
proof -
  have "slot_off example_globals 3 \<noteq> slot_off example_globals 5" by code_simp
  then show ?thesis
    by (simp add: inbox_state_def wr_adapter_def outbox_def example_state_def slot_view_def blank_slot_def)
qed

lemma bridge_core_ok: "core_ok bridge_core"
  by code_simp

section \<open>Properties\<close>



text \<open>C19: when the receiver's own slot is free (or holds the very message), the answer to a ping, a
  peer-attribute request or a control write arrives: the sender's message is gone, the receiver's slot
  carries exactly the answer, addressed to the sender, the sender's doorbell has been rung, the lock is
  free, and a control write has set the manager's and the component's ids. A ping needs no core
  structure.\<close>

theorem link_request_answered:
  fixes s n A ap core
  defines "k \<equiv> link_kind (mail s (slot_off (glob s) n))"
  assumes "fee_inv s" "adapters s ap = Some A" "incoming_slot_lock A" "valid_id (glob s) n"
    and "k \<noteq> NotLink" "k = Ping \<or> cores s (ad_core A) = Some core \<and> core_ok core"
    and "n = unat (my_id A) \<or> outbox s (unat (my_id A)) = None" "86 < payload_size (glob s)"
  shows "\<exists>s'. FEE_link_request env (globals A + slot_off (glob s) n) ap s = Some (IRQ_HANDLED, s') \<and>
    fee_inv s' \<and> outbox s' = (outbox s)(n := None, unat (my_id A) \<mapsto> (n, link_answer k core)) \<and>
    doorbells s' = doorbells s @ [(ap, ringer (of_nat n) (my_id A))] \<and>
    adapters s' = (adapters s)(ap \<mapsto> A\<lparr>incoming_slot_lock := False\<rparr>) \<and>
    (k \<noteq> Ping \<longrightarrow> cores s' = (cores s)(ad_core A \<mapsto> link_core k core))"
proof -
  from link_request_answers[OF assms(2-5) assms(6-9)[unfolded k_def], of env, folded k_def] obtain s'
    where "FEE_link_request env (globals A + slot_off (glob s) n) ap s = Some (IRQ_HANDLED, s')"
      "fee_inv s'" "outbox s' = (outbox s)(n := None, unat (my_id A) \<mapsto> (n, link_answer k core))"
      "doorbells s' = doorbells s @ [(ap, ringer (of_nat n) (my_id A))]"
      "adapters s' = (adapters s)(ap \<mapsto> A\<lparr>incoming_slot_lock := False\<rparr>)"
      and c: "cores s' = cores (assigned (ad_core A) k s)" by blast
  moreover have "k \<noteq> Ping \<longrightarrow> cores s' = (cores s)(ad_core A \<mapsto> link_core k core)"
    using c assms(7) assigned_core by auto
  ultimately show ?thesis by blast
qed

theorem link_request_answered_witness:
  "\<exists>s'. FEE_link_request example_env (0x20000 + slot_off example_globals 5) 0xA000 (inbox_state ''ping'')
     = Some (IRQ_HANDLED, s') \<and> fee_inv s' \<and> outbox s' 5 = None \<and> outbox s' 3 = Some (5, ''pong'') \<and>
     doorbells s' = doorbells (inbox_state ''ping'') @ [(0xA000, ringer 5 3)]"
proof -
  note st = inbox_state_simps
  have k: "link_kind (mail (inbox_state ''ping'') (slot_off example_globals 5)) = Ping"
    unfolding st by code_simp
  have p: "86 < payload_size example_globals" by code_simp
  from link_request_answered[OF inbox_state_inv st(1) st(6), of "''ping''" 5 bridge_core example_env]
  show ?thesis using k p by (auto simp: st inbox_state_free)
qed

text \<open>C20: a control write survives the trip through text: printed with any five 32-bit numbers, it sets
  exactly these ids in the core structure and is acknowledged with its tag.\<close>

theorem ctl_write_roundtrip:
  assumes "fee_inv s" "adapters s ap = Some A" "incoming_slot_lock A" "valid_id (glob s) n"
    and "cores s (ad_core A) = Some core" "core_ok core"
    and "n = unat (my_id A) \<or> outbox s (unat (my_id A)) = None" "86 < payload_size (glob s)"
    and "int32_range pc" "int32_range ps" "int32_range cid" "int32_range sid" "int32_range tag"
    and "cstr (buf (mail s (slot_off (glob s) n))) = ctl_write_text pc ps cid sid tag"
  shows "\<exists>s'. FEE_link_request env (globals A + slot_off (glob s) n) ap s = Some (IRQ_HANDLED, s') \<and>
    cores s' (ad_core A) = Some (core\<lparr>PFMCID := pc, PFMSID := ps, CID0 := cid, SID0 := sid, PMCID := - 1\<rparr>) \<and>
    outbox s' (unat (my_id A)) = Some (n, ''Standalone Acknowledgment Tag='' @ show_int tag @ '',Reason=OK'')"
proof -
  note k = ctl_write_kind[OF assms(9-14)]
  from link_request_answers[OF assms(1-4), unfolded k, where core = core and env = env] assms(5-8)
  obtain s' where "FEE_link_request env (globals A + slot_off (glob s) n) ap s = Some (IRQ_HANDLED, s')"
    "outbox s' = (outbox s)(n := None, unat (my_id A) \<mapsto> (n, STANDALONE_ACKNOWLEDGMENT tag))"
    "cores s' = cores (assigned (ad_core A) (CtlWrite pc ps cid sid tag) s)" by auto
  then show ?thesis
    by (auto simp: assigned_core[OF assms(5)] STANDALONE_ACKNOWLEDGMENT_def format_def)
qed

theorem ctl_write_roundtrip_witness:
  "\<exists>s'. FEE_link_request example_env (0x20000 + slot_off example_globals 5) 0xA000
       (inbox_state (ctl_write_text 1500 27 300 (- 1) 42)) = Some (IRQ_HANDLED, s') \<and>
     cores s' 0x9000 = Some (bridge_core\<lparr>PFMCID := 1500, PFMSID := 27, CID0 := 300, SID0 := - 1, PMCID := - 1\<rparr>) \<and>
     outbox s' 3 = Some (5, ''Standalone Acknowledgment Tag=42,Reason=OK'')"
proof -
  let ?msg = "ctl_write_text 1500 27 300 (- 1) 42"
  note st = inbox_state_simps
  have p: "86 < payload_size example_globals" by code_simp
  have msg: "length ?msg < 384" "cstr (?msg @ replicate (384 - length ?msg) NUL) = ?msg"
    "show_int 42 = ''42''" by code_simp+
  from ctl_write_roundtrip[OF inbox_state_inv st(1) st(6), of ?msg 5 bridge_core 1500 27 300 "- 1" 42 example_env]
  show ?thesis using p msg by (simp add: st inbox_state_free bridge_core_ok int32_range_def)
qed

text \<open>C40: with no core structure, that is before a bridge driver has registered, a peer-attribute
  request or a control write makes the interrupt handler dereference a bad pointer, after it has taken
  the message.\<close>

theorem link_request_without_core:
  assumes "fee_inv s" "adapters s ap = Some A" "incoming_slot_lock A" "valid_id (glob s) n"
    and "cores s (ad_core A) = None"
    and "link_kind (mail s (slot_off (glob s) n)) \<noteq> NotLink" "link_kind (mail s (slot_off (glob s) n)) \<noteq> Ping"
  shows "FEE_link_request env (globals A + slot_off (glob s) n) ap s = None"
proof -
  note nn = slot_pointer_nonnull[OF assms(1,2,4)]
  note tk = take_message_annotated[OF assms(2,3) refl nn]
  show ?thesis
    using assms(5-7) unfolding link_request_start[OF assms(2) refl nn fee_inv_slot[OF assms(1,4)]]
    by (auto simp: Let_def link_kind_def tk split: if_splits list.splits)
qed

theorem link_request_without_core_witness:
  "FEE_link_request example_env (0x20000 + slot_off example_globals 5) 0xA000
     ((inbox_state ''Link CTL Peer-Attribute'')\<lparr>cores := Map.empty\<rparr>) = None"
proof -
  note st = inbox_state_simps
  let ?s = "(inbox_state ''Link CTL Peer-Attribute'')\<lparr>cores := Map.empty\<rparr>"
  have "fee_inv ?s" using inbox_state_inv[of "''Link CTL Peer-Attribute''"] by simp
  moreover have "link_kind (mail ?s (slot_off example_globals 5)) = PeerAttribute"
    by (simp add: st) code_simp
  ultimately show ?thesis
    using link_request_without_core[of ?s "0xA000" busy_adapter 5 example_env] by (simp add: st)
qed

end
