(* ===== verification/Fee_MSIX.thy ===== *)
theory Fee_MSIX
  imports Fee_Link
begin

text \<open>
  The MSI-X interrupts, \<open>shim_bridge/fee_MSI-X.c\<close>: the handler \<open>all_msix\<close> that turns a vector into the
  sender's mailslot, and the setup and teardown of the vectors. The lemmas show which slot a vector
  delivers, that a failed setup leaves nothing behind, and exactly which interrupts a teardown frees.
\<close>

section \<open>The handler\<close>

text \<open>The search for the vector from entry \<open>i\<close> on; \<open>n\<close> when it is not among the first \<open>n\<close> entries.
  Reading behind the table is \<^const>\<open>None\<close>.\<close>

function match_vector :: "msix_entry list \<Rightarrow> int \<Rightarrow> nat \<Rightarrow> nat \<Rightarrow> nat option" where
  "match_vector es v n i =
     (if i < n
      then if i < length es
           then if v = vector (es ! i) then Some i else match_vector es v n (Suc i)
           else None
      else Some i)"
  by pat_completeness auto

termination by (relation "measure (\<lambda>(es, v, n, i). n - i)") auto

declare match_vector.simps [simp del]

definition all_msix :: "wait_env \<Rightarrow> int \<Rightarrow> addr \<Rightarrow> fee_state \<Rightarrow> (irqreturn \<times> fee_state) option" where
  "all_msix env vec ap s = do {
     A0 \<leftarrow> adapters s ap;
     let msix_entries = (case IRQ_private A0 of None \<Rightarrow> [] | Some (_, es) \<Rightarrow> es);
     s1 \<leftarrow> spin_lock ap s;
     A \<leftarrow> adapters s1 ap;
     G \<leftarrow> rd_globals s1 A;
     slotnum \<leftarrow> match_vector msix_entries vec (unat (nEvents G)) 1;
     if slotnum \<ge> unat (nEvents G) then do {
       s2 \<leftarrow> spin_unlock ap s1;
       Some (IRQ_NONE, s2)
     }
     else do {
       let incoming_id = entry (msix_entries ! slotnum);
       slot \<leftarrow> calculate_mailslot s1 A (ucast incoming_id);
       if slot = NULL then do {
         s2 \<leftarrow> spin_unlock ap s1;
         Some (IRQ_HANDLED, s2)
       }
       else do {
         (r, s2) \<leftarrow> FEE_link_request env slot ap s1;
         if r = IRQ_HANDLED then Some (IRQ_HANDLED, s2)
         else do {
           A2 \<leftarrow> adapters s2 ap;
           s3 \<leftarrow> spin_unlock ap (wr_adapter ap (A2\<lparr>incoming_slot := slot\<rparr>) s2);
           Some (IRQ_HANDLED, s3)
         }
       }
     }
   }"

section \<open>Setup and teardown\<close>

text \<open>The kernel's answers during a setup: the number of vectors of the device, the allocation of the
  table, \<open>pci_alloc_irq_vectors\<close>, \<open>pci_irq_vector\<close> and \<open>request_irq\<close> for each entry.\<close>

record msix_env =
  r_vec_count :: int
  kz_entries :: addr
  r_alloc_vectors :: int
  r_irq_vector :: "nat \<Rightarrow> int"
  r_request_irq :: "nat \<Rightarrow> int"

definition set_IRQ_private ::
  "addr \<Rightarrow> (addr \<times> msix_entry list) option \<Rightarrow> fee_state \<Rightarrow> fee_state option" where
  "set_IRQ_private ap x s = do { A \<leftarrow> adapters s ap; Some (wr_adapter ap (A\<lparr>IRQ_private := x\<rparr>) s) }"

text \<open>The loop over \<open>pci_irq_vector\<close>: the error of the first failing entry, or the filled table.\<close>

fun fill_vectors :: "(nat \<Rightarrow> int) \<Rightarrow> nat \<Rightarrow> msix_entry list \<Rightarrow> int + msix_entry list" where
  "fill_vectors f i [] = Inr []"
| "fill_vectors f i (e # es) =
     (if f i < 0 then Inl (f i)
      else case fill_vectors f (Suc i) es of Inl r \<Rightarrow> Inl r | Inr es' \<Rightarrow> Inr (e\<lparr>vector := f i\<rparr> # es'))"

text \<open>The loop over \<open>request_irq\<close> from entry \<open>i\<close> on: the last result and the index it stopped at.\<close>

fun request_irqs ::
  "(nat \<Rightarrow> int) \<Rightarrow> nat \<Rightarrow> msix_entry list \<Rightarrow> 'a kernel_scheme \<Rightarrow> int \<times> nat \<times> 'a kernel_scheme" where
  "request_irqs f i [] s = (0, i, s)"
| "request_irqs f i (e # es) s =
     (if f i \<noteq> 0 then (f i, i, s) else request_irqs f (Suc i) es (k_acquire (Irq (vector e)) s))"

fun free_irqs :: "msix_entry list \<Rightarrow> 'a kernel_scheme \<Rightarrow> 'a kernel_scheme" where
  "free_irqs [] s = s"
| "free_irqs (e # es) s = free_irqs es (k_release (Irq (vector e)) s)"

definition err_kfree_msix_entries :: "addr \<Rightarrow> addr \<Rightarrow> int \<Rightarrow> fee_state \<Rightarrow> (int \<times> fee_state) option" where
  "err_kfree_msix_entries ap es ret s = do {
     s1 \<leftarrow> set_IRQ_private ap None (k_kfree es s);
     Some (ret, s1)
   }"

definition FEE_ISR_setup :: "msix_env \<Rightarrow> addr \<Rightarrow> fee_state \<Rightarrow> (int \<times> fee_state) option" where
  "FEE_ISR_setup env pd s = do {
     P \<leftarrow> pdevs s pd;
     let ap = drvdata P;
     let nvectors = r_vec_count env;
     if nvectors < 0 then Some (nvectors, s)
     else if nvectors < 16 then Some (err EINVAL, s)
     else do {
       A \<leftarrow> adapters s ap;
       G \<leftarrow> rd_globals s A;
       if nEvents G > word_of_int nvectors then Some (err ENOSPC, s)
       else do {
         let nvectors = s32 (uint (nEvents G));
         let es = kz_entries env;
         if es = NULL then err_kfree_msix_entries ap NULL (err ENOMEM) s
         else do {
           let s1 = k_acquire (Kmem es) s;
           let table = map (\<lambda>i. \<lparr>vector = 0, entry = of_nat i\<rparr>) [0 ..< nat nvectors];
           s2 \<leftarrow> set_IRQ_private ap (Some (es, table)) s1;
           if r_alloc_vectors env < 0 then err_kfree_msix_entries ap es (r_alloc_vectors env) s2
           else do {
             let s3 = k_acquire (IrqVectors pd) s2;
             if r_alloc_vectors env < nvectors
             then err_kfree_msix_entries ap es (err ENOSPC) (k_release (IrqVectors pd) s3)
             else case fill_vectors (r_irq_vector env) 0 table of
               Inl ret \<Rightarrow> err_kfree_msix_entries ap es ret (k_release (IrqVectors pd) s3)
             | Inr table' \<Rightarrow> do {
                 s4 \<leftarrow> set_IRQ_private ap (Some (es, table')) s3;
                 let (ret, last_irq_index, s5) = request_irqs (r_request_irq env) 0 table' s4;
                 if ret = 0 then Some (0, s5)
                 else err_kfree_msix_entries ap es ret
                        (k_release (IrqVectors pd) (free_irqs (take last_irq_index table') s5))
               }
           }
         }
       }
     }
   }"

definition FEE_ISR_teardown :: "addr \<Rightarrow> fee_state \<Rightarrow> fee_state option" where
  "FEE_ISR_teardown pd s = do {
     P \<leftarrow> pdevs s pd;
     let ap = drvdata P;
     A \<leftarrow> adapters s ap;
     case IRQ_private A of
       None \<Rightarrow> Some s
     | Some (es, table) \<Rightarrow> do {
         G \<leftarrow> rd_globals s A;
         let n = unat (nClients G + 2);
         if length table < n then None
         else set_IRQ_private ap None
                (k_kfree es (k_release (IrqVectors pd) (free_irqs (take n table) s)))
       }
   }"

section \<open>Lemmas: the handler\<close>

lemma match_vector_found:
  assumes "n \<le> length es" "k < n" "vector (es ! k) = v" "i \<le> k" "\<forall>j. i \<le> j \<and> j < k \<longrightarrow> vector (es ! j) \<noteq> v"
  shows "match_vector es v n i = Some k"
  using assms
proof (induction es v n i rule: match_vector.induct)
  case (1 es v n i)
  show ?case
  proof (cases "i = k")
    case True
    with 1 show ?thesis by (subst match_vector.simps) simp
  next
    case False
    with 1 have "vector (es ! i) \<noteq> v" "i < n" "i < length es" by auto
    moreover have "match_vector es v n (Suc i) = Some k" using 1 False calculation by auto
    ultimately show ?thesis by (subst match_vector.simps) auto
  qed
qed

lemma match_vector_missing:
  assumes "n \<le> length es" "i \<le> n" "\<forall>j. i \<le> j \<and> j < n \<longrightarrow> vector (es ! j) \<noteq> v"
  shows "match_vector es v n i = Some n"
  using assms
proof (induction es v n i rule: match_vector.induct)
  case (1 es v n i)
  show ?case
  proof (cases "i = n")
    case True
    then show ?thesis by (subst match_vector.simps) simp
  next
    case False
    with 1 have "vector (es ! i) \<noteq> v" "i < n" "i < length es" by auto
    moreover have "match_vector es v n (Suc i) = Some n" using 1 False calculation by auto
    ultimately show ?thesis by (subst match_vector.simps) auto
  qed
qed

text \<open>The table as a successful setup leaves it.\<close>

definition irq_table_ok :: "FEE_globals \<Rightarrow> msix_entry list \<Rightarrow> bool" where
  "irq_table_ok G es \<longleftrightarrow> length es = unat (nEvents G) \<and> distinct (map vector es) \<and>
     (\<forall>i < length es. entry (es ! i) = of_nat i)"

lemma match_vector_table:
  assumes "irq_table_ok G es" "1 \<le> n" "n < unat (nEvents G)"
  shows "match_vector es (vector (es ! n)) (unat (nEvents G)) 1 = Some n"
proof (rule match_vector_found)
  show "\<forall>j. 1 \<le> j \<and> j < n \<longrightarrow> vector (es ! j) \<noteq> vector (es ! n)"
    using assms nth_eq_iff_index_eq[of "map vector es"] by (auto simp: irq_table_ok_def)
qed (use assms in \<open>auto simp: irq_table_ok_def\<close>)

definition locked :: "addr \<Rightarrow> FEE_adapter \<Rightarrow> fee_state \<Rightarrow> fee_state" where
  "locked ap A s = wr_adapter ap (A\<lparr>incoming_slot_lock := True\<rparr>) s"

lemma locked_simps [simp]:
  "adapters (locked ap A s) = (adapters s)(ap \<mapsto> A\<lparr>incoming_slot_lock := True\<rparr>)"
  "glob (locked ap A s) = glob s" "mail (locked ap A s) = mail s" "cores (locked ap A s) = cores s"
  "doorbells (locked ap A s) = doorbells s" "outbox (locked ap A s) = outbox s"
  by (simp_all add: locked_def) (simp_all add: wr_adapter_def)

lemma locked_inv: "fee_inv s \<Longrightarrow> adapters s ap = Some A \<Longrightarrow> fee_inv (locked ap A s)"
  unfolding locked_def
  by (rule fee_inv_adapter_upd) (auto simp: fee_inv_def adapter_ok_def)

lemma unlock_locked:
  assumes "adapters s ap = Some A" "\<not> incoming_slot_lock A"
  shows "spin_unlock ap (locked ap A s) = Some s"
proof -
  have "A\<lparr>incoming_slot_lock := False\<rparr> = A" using assms(2) by simp
  then have "(adapters s)(ap \<mapsto> A\<lparr>incoming_slot_lock := False\<rparr>) = adapters s"
    using assms(1) by (simp add: map_upd_triv)
  then show ?thesis by (simp add: spin_unlock_def wr_adapter_def) (simp add: locked_def wr_adapter_def)
qed

text \<open>The handler up to the lookup of the mailslot.\<close>

lemma all_msix_matched:
  assumes "fee_inv s" "adapters s ap = Some A" "\<not> incoming_slot_lock A"
    and "IRQ_private A = Some (p, es)" "irq_table_ok (glob s) es"
    and "1 \<le> n" "n < unat (nEvents (glob s))" "n < 2 ^ 16" "valid_id (glob s) n"
  shows "all_msix env (vector (es ! n)) ap s = do {
    (r, s2) \<leftarrow> FEE_link_request env (globals A + slot_off (glob s) n) ap (locked ap A s);
    if r = IRQ_HANDLED then Some (IRQ_HANDLED, s2)
    else do {
      A2 \<leftarrow> adapters s2 ap;
      s3 \<leftarrow> spin_unlock ap (wr_adapter ap (A2\<lparr>incoming_slot := globals A + slot_off (glob s) n\<rparr>) s2);
      Some (IRQ_HANDLED, s3)
    }
  }"
proof -
  have lock: "spin_lock ap s = Some (locked ap A s)"
    using assms(2,3) by (simp add: spin_lock_def locked_def)
  have g: "globals A \<noteq> NULL" using adapter_ok_globals[OF fee_inv_adapter[OF assms(1,2)]] .
  have e: "unat (ucast (entry (es ! n)) :: uint32) = n"
    using assms(5,7,8) by (simp add: irq_table_ok_def c_conv unat_of_nat)
  have calc: "calculate_mailslot (locked ap A s) (A\<lparr>incoming_slot_lock := True\<rparr>) (ucast (entry (es ! n)))
      = Some (globals A + slot_off (glob s) n)"
    using calculate_mailslot_eq[of "A\<lparr>incoming_slot_lock := True\<rparr>" "locked ap A s" "ucast (entry (es ! n))"]
      g assms(9) by (simp add: e)
  show ?thesis
    using assms(7) slot_pointer_nonnull[OF assms(1,2,9)] g
    unfolding all_msix_def assms(2) Let_def bind.simps(2) lock
    by (simp add: assms(4) rd_globals_def match_vector_table[OF assms(5,6,7), simplified] calc
        del: bind_eq_Some cong: if_cong)
qed

definition delivered :: "addr \<Rightarrow> FEE_adapter \<Rightarrow> nat \<Rightarrow> fee_state \<Rightarrow> fee_state" where
  "delivered ap A n s =
     wr_adapter ap (A\<lparr>incoming_slot := globals A + slot_off (glob s) n\<rparr>) (annotated n s)"

lemma delivered_simps [simp]:
  "adapters (delivered ap A n s) = (adapters s)(ap \<mapsto> A\<lparr>incoming_slot := globals A + slot_off (glob s) n\<rparr>)"
  "glob (delivered ap A n s) = glob s" "cores (delivered ap A n s) = cores s"
  "doorbells (delivered ap A n s) = doorbells s"
  by (simp_all add: delivered_def wr_adapter_def annotated_def)

lemma delivered_inv:
  assumes "fee_inv s" "adapters s ap = Some A" "valid_id (glob s) n"
  shows "fee_inv (delivered ap A n s)"
  unfolding delivered_def
proof (rule fee_inv_adapter_upd[OF annotated_inv[OF assms(1,3)]])
  show "ap \<noteq> NULL" using assms(1,2) by (auto simp: fee_inv_def)
  show "adapter_ok (glob (annotated n s)) (A\<lparr>incoming_slot := globals A + slot_off (glob s) n\<rparr>)"
    using fee_inv_adapter[OF assms(1,2)] assms(3) by (auto simp: adapter_ok_def)
qed

lemma delivered_outbox:
  assumes "globals_ok (glob s)" "valid_id (glob s) n"
  shows "outbox (delivered ap A n s) = outbox s"
  using annotated_outbox[OF assms] by (simp add: delivered_def)

lemma all_msix_delivers:
  assumes "fee_inv s" "adapters s ap = Some A" "\<not> incoming_slot_lock A"
    and "IRQ_private A = Some (p, es)" "irq_table_ok (glob s) es"
    and "1 \<le> n" "n < unat (nEvents (glob s))" "n < 2 ^ 16" "valid_id (glob s) n"
    and "link_kind (mail s (slot_off (glob s) n)) = NotLink"
  shows "all_msix env (vector (es ! n)) ap s = Some (IRQ_HANDLED, delivered ap A n s)"
proof -
  have "FEE_link_request env (globals A + slot_off (glob s) n) ap (locked ap A s) =
      Some (IRQ_NONE, annotated n (locked ap A s))"
    by (rule link_request_none[where A = "A\<lparr>incoming_slot_lock := True\<rparr>" and G = "glob s"])
      (use slot_pointer_nonnull[OF assms(1,2,9)] fee_inv_slot[OF assms(1,9)] assms(10) in simp_all)
  moreover have "A\<lparr>incoming_slot := x, incoming_slot_lock := False\<rparr> = A\<lparr>incoming_slot := x\<rparr>" for x
    using assms(3) by simp
  ultimately show ?thesis
    unfolding all_msix_matched[OF assms(1-9)]
    by (simp add: spin_unlock_def wr_adapter_def)
      (simp add: delivered_def annotated_def locked_def wr_adapter_def)
qed

lemma all_msix_link:
  assumes "fee_inv s" "adapters s ap = Some A" "\<not> incoming_slot_lock A"
    and "IRQ_private A = Some (p, es)" "irq_table_ok (glob s) es"
    and "1 \<le> n" "n < unat (nEvents (glob s))" "n < 2 ^ 16" "valid_id (glob s) n"
    and "FEE_link_request env (globals A + slot_off (glob s) n) ap (locked ap A s) = Some (IRQ_HANDLED, s')"
  shows "all_msix env (vector (es ! n)) ap s = Some (IRQ_HANDLED, s')"
  unfolding all_msix_matched[OF assms(1-9)] by (simp add: assms(10))

section \<open>Lemmas: setup and teardown\<close>

definition irq_res :: "msix_entry list \<Rightarrow> kres multiset" where
  "irq_res es = mset (map (\<lambda>e. Irq (vector e)) es)"

lemma irq_res_simps [simp]:
  "irq_res [] = {#}" "irq_res (e # es) = add_mset (Irq (vector e)) (irq_res es)"
  "irq_res (es @ fs) = irq_res es + irq_res fs"
  by (simp_all add: irq_res_def)

lemma free_irqs_led:
  "led_only s (free_irqs es s)"
  "mset (held (led s)) = M + irq_res es \<Longrightarrow> mset (held (led (free_irqs es s))) = M"
  "mset (held (led s)) = M + irq_res es \<Longrightarrow> bad (led (free_irqs es s)) = bad (led s)"
proof (induction es arbitrary: s)
  case (Cons e es)
  case 1
  show ?case using led_only_trans[OF led_only_upd Cons.IH(1)] by simp
  case 2
  then show ?case using Cons.IH(2)[of "k_release (Irq (vector e)) s"] by (simp add: ledger_simps)
  case 3
  then show ?case using Cons.IH(3)[of "k_release (Irq (vector e)) s"] by (simp add: ledger_simps)
qed simp_all

lemma request_irqs_led:
  assumes "request_irqs f i es s = (ret, j, s')"
  shows "led_only s s' \<and> i \<le> j \<and> j \<le> i + length es \<and> (ret = 0 \<longrightarrow> j = i + length es) \<and>
    mset (held (led s')) = mset (held (led s)) + irq_res (take (j - i) es) \<and> bad (led s') = bad (led s)"
  using assms
proof (induction es arbitrary: i s)
  case (Cons e es)
  show ?case
  proof (cases "f i = 0")
    case True
    from Cons.IH[of "Suc i" "k_acquire (Irq (vector e)) s"] Cons.prems True
    have IH: "led_only (k_acquire (Irq (vector e)) s) s' \<and> Suc i \<le> j \<and> j \<le> Suc i + length es \<and>
      (ret = 0 \<longrightarrow> j = Suc i + length es) \<and> mset (held (led s')) =
        mset (held (led (k_acquire (Irq (vector e)) s))) + irq_res (take (j - Suc i) es) \<and>
      bad (led s') = bad (led (k_acquire (Irq (vector e)) s))" by simp
    moreover from IH have "take (j - i) (e # es) = e # take (j - Suc i) es" by (simp add: take_Cons')
    ultimately show ?thesis using led_only_trans[OF led_only_upd] by (auto simp: ledger_simps)
  next
    case False
    with Cons.prems show ?thesis by auto
  qed
qed simp

lemma fill_vectors_ok:
  "fill_vectors f i es = Inr es' \<Longrightarrow> length es' = length es \<and>
    (\<forall>k < length es. es' ! k = (es ! k)\<lparr>vector := f (i + k)\<rparr> \<and> 0 \<le> f (i + k))"
proof (induction es arbitrary: i es')
  case (Cons e es)
  then obtain es2 where "fill_vectors f (Suc i) es = Inr es2" "es' = e\<lparr>vector := f i\<rparr> # es2" "0 \<le> f i"
    by (auto split: if_splits sum.splits)
  with Cons.IH[of "Suc i" es2] show ?case by (auto simp: less_Suc_eq_0_disj)
qed simp

lemma s32_uint_small:
  assumes "unat (w :: uint64) < 2 ^ 31"
  shows "s32 (uint w) = int (unat w)"
proof -
  from assms have "int (unat w) < int (2 ^ 31)" by (rule of_nat_less_iff[THEN iffD2])
  then have "uint w < 2 ^ 31" by simp
  then show ?thesis using s32_nonneg_id[of "uint w"] by simp
qed

lemma fill_vectors_error: "fill_vectors f i es = Inl r \<Longrightarrow> r < 0"
  by (induction es arbitrary: i) (auto split: if_splits sum.splits)

definition with_irqs ::
  "addr \<Rightarrow> FEE_adapter \<Rightarrow> (addr \<times> msix_entry list) option \<Rightarrow> ledger \<Rightarrow> fee_state \<Rightarrow> fee_state" where
  "with_irqs ap A x l s = s\<lparr>led := l, adapters := (adapters s)(ap \<mapsto> A\<lparr>IRQ_private := x\<rparr>)\<rparr>"

lemma set_IRQ_private_eq:
  "adapters s ap = Some A \<Longrightarrow> set_IRQ_private ap x (s\<lparr>led := l\<rparr>) = Some (with_irqs ap A x l s)"
  "set_IRQ_private ap x ((with_irqs ap A y l s)\<lparr>led := l'\<rparr>) = Some (with_irqs ap A x l' s)"
  "set_IRQ_private ap x (with_irqs ap A y l s) = Some (with_irqs ap A x l s)"
  by (simp_all add: set_IRQ_private_def with_irqs_def wr_adapter_def)

lemma err_kfree_eq:
  "err_kfree_msix_entries ap es ret ((with_irqs ap A y l s)\<lparr>led := l'\<rparr>) = Some (ret, with_irqs ap A None (kfree es l') s)"
  by (simp add: err_kfree_msix_entries_def set_IRQ_private_eq)

lemma with_irqs_led [simp]: "led (with_irqs ap A x l s) = l"
  by (simp add: with_irqs_def)

lemma with_irqs_same: "(with_irqs ap A x l s)\<lparr>led := l\<rparr> = with_irqs ap A x l s"
proof -
  have "(with_irqs ap A x l s)\<lparr>led := led (with_irqs ap A x l s)\<rparr> = with_irqs ap A x l s"
    by (simp del: with_irqs_led)
  then show ?thesis by simp
qed

lemma with_irqs_frame [simp]:
  "glob (with_irqs ap A x l s) = glob s" "pdevs (with_irqs ap A x l s) = pdevs s"
  "adapters (with_irqs ap A x l s) = (adapters s)(ap \<mapsto> A\<lparr>IRQ_private := x\<rparr>)"
  by (simp_all add: with_irqs_def)

lemma with_irqs_led_only:
  assumes "led_only (with_irqs ap A x l s) t"
  shows "t = with_irqs ap A x (led t) s"
proof -
  from assms obtain l' where "t = (with_irqs ap A x l s)\<lparr>led := l'\<rparr>" by (rule led_onlyE)
  then show ?thesis by (simp add: with_irqs_def)
qed

text \<open>The table a successful setup leaves in the adapter.\<close>

definition irq_table :: "msix_env \<Rightarrow> nat \<Rightarrow> msix_entry list" where
  "irq_table env n = map (\<lambda>i. \<lparr>vector = r_irq_vector env i, entry = of_nat i\<rparr>) [0 ..< n]"

lemma fill_vectors_table:
  "fill_vectors (r_irq_vector env) 0 (map (\<lambda>i. \<lparr>vector = 0, entry = of_nat i\<rparr>) [0 ..< n]) = Inr es
   \<Longrightarrow> es = irq_table env n"
  using fill_vectors_ok[of "r_irq_vector env" 0 "map (\<lambda>i. \<lparr>vector = 0, entry = of_nat i\<rparr>) [0 ..< n]" es]
  by (intro nth_equalityI) (auto simp: irq_table_def)

text \<open>A setup either succeeds, or ends with an error in a state that differs at most in the table
  pointer, which is NULL.\<close>

definition setup_done :: "msix_env \<Rightarrow> addr \<Rightarrow> addr \<Rightarrow> FEE_adapter \<Rightarrow> fee_state \<Rightarrow> fee_state \<Rightarrow> bool" where
  "setup_done env pd ap A s s' \<longleftrightarrow> kz_entries env \<noteq> NULL \<and>
     (\<exists>l. s' = with_irqs ap A (Some (kz_entries env, irq_table env (unat (nEvents (glob s))))) l s \<and>
        bad l = bad (led s) \<and> mset (held l) = mset (held (led s)) +
          {#Kmem (kz_entries env), IrqVectors pd#} + irq_res (irq_table env (unat (nEvents (glob s)))))"

definition setup_failed :: "addr \<Rightarrow> FEE_adapter \<Rightarrow> fee_state \<Rightarrow> fee_state \<Rightarrow> bool" where
  "setup_failed ap A s s' \<longleftrightarrow> s' = s \<or> (\<exists>l. s' = with_irqs ap A None l s \<and> balanced (led s) l)"

lemma setup_request:
  assumes "request_irqs f 0 es (with_irqs ap A x l s) = (ret, j, t)" "p \<noteq> NULL"
    and "mset (held l) = mset (held (led s)) + {#Kmem p, IrqVectors pd#}" "bad l = bad (led s)"
  shows "ret = 0 \<Longrightarrow> \<exists>l'. t = with_irqs ap A x l' s \<and> bad l' = bad (led s) \<and>
      mset (held l') = mset (held (led s)) + {#Kmem p, IrqVectors pd#} + irq_res es"
    and "\<exists>l'. err_kfree_msix_entries ap p ret (k_release (IrqVectors pd) (free_irqs (take j es) t)) =
      Some (ret, with_irqs ap A None l' s) \<and> balanced (led s) l'"
proof -
  note r = request_irqs_led[OF assms(1)]
  have t: "t = with_irqs ap A x (led t) s" using with_irqs_led_only r by blast
  show "\<exists>l'. t = with_irqs ap A x l' s \<and> bad l' = bad (led s) \<and>
      mset (held l') = mset (held (led s)) + {#Kmem p, IrqVectors pd#} + irq_res es" if "ret = 0"
    using t r that assms(3,4) by (intro exI[of _ "led t"]) simp
  let ?u = "free_irqs (take j es) t"
  have u: "?u = with_irqs ap A x (led ?u) s"
    using free_irqs_led(1)[of t] with_irqs_led_only t by metis
  have "mset (held (led t)) = (mset (held (led s)) + {#Kmem p, IrqVectors pd#}) + irq_res (take j es)"
    using r assms(3) by simp
  note fu = free_irqs_led(2,3)[OF this]
  have "k_release (IrqVectors pd) ?u = (with_irqs ap A x (led ?u) s)\<lparr>led := release (IrqVectors pd) (led ?u)\<rparr>"
    using u by metis
  then show "\<exists>l'. err_kfree_msix_entries ap p ret (k_release (IrqVectors pd) ?u) =
      Some (ret, with_irqs ap A None l' s) \<and> balanced (led s) l'"
    using fu r assms
    by (intro exI[of _ "kfree p (release (IrqVectors pd) (led ?u))"])
      (simp add: err_kfree_eq balanced_def ledger_simps)
qed

text \<open>The setup once there are vectors for every event and memory for the table.\<close>

definition blank_table :: "nat \<Rightarrow> msix_entry list" where
  "blank_table n = map (\<lambda>i. \<lparr>vector = 0, entry = of_nat i\<rparr>) [0 ..< n]"

definition setup_vectors :: "msix_env \<Rightarrow> addr \<Rightarrow> addr \<Rightarrow> FEE_adapter \<Rightarrow> ledger \<Rightarrow> fee_state \<Rightarrow> (int \<times> fee_state) option" where
  "setup_vectors env pd ap A l s =
     (case fill_vectors (r_irq_vector env) 0 (blank_table (unat (nEvents (glob s)))) of
        Inl ret \<Rightarrow> err_kfree_msix_entries ap (kz_entries env) ret
          ((with_irqs ap A (Some (kz_entries env, blank_table (unat (nEvents (glob s))))) l s)\<lparr>led := release (IrqVectors pd) l\<rparr>)
      | Inr table' \<Rightarrow> do {
          s4 \<leftarrow> set_IRQ_private ap (Some (kz_entries env, table'))
            (with_irqs ap A (Some (kz_entries env, blank_table (unat (nEvents (glob s))))) l s);
          let (ret, last_irq_index, s5) = request_irqs (r_request_irq env) 0 table' s4;
          if ret = 0 then Some (0, s5)
          else err_kfree_msix_entries ap (kz_entries env) ret
                 (k_release (IrqVectors pd) (free_irqs (take last_irq_index table') s5))
        })"

lemma vectors_31:
  fixes n :: uint64
  assumes "\<not> n > word_of_int k" "0 \<le> k" "int32_range k"
  shows "s32 (uint n) = int (unat n)"
proof -
  have "n \<le> word_of_int k" using assms(1) by simp
  also have "\<dots> < 2 ^ 31" using assms(2,3) by (simp add: int32_range_def word_less_def uint_word_of_int)
  finally show ?thesis by (intro s32_uint_small) (simp add: word_less_nat_alt)
qed

lemma setup_start:
  fixes s env pd A P
  defines "ap \<equiv> drvdata P" and "p \<equiv> kz_entries env" and "n \<equiv> unat (nEvents (glob s))"
    and "l \<equiv> acquire (IrqVectors pd) (acquire (Kmem (kz_entries env)) (led s))"
  assumes "pdevs s pd = Some P" "adapters s (drvdata P) = Some A" "globals A \<noteq> NULL" "int32_range (r_vec_count env)"
    and "16 \<le> r_vec_count env" "\<not> nEvents (glob s) > word_of_int (r_vec_count env)" "kz_entries env \<noteq> NULL"
  shows "FEE_ISR_setup env pd s =
    (let s2 = with_irqs ap A (Some (p, blank_table n)) (acquire (Kmem p) (led s)) s in
     if r_alloc_vectors env < 0 then err_kfree_msix_entries ap p (r_alloc_vectors env) s2
     else if r_alloc_vectors env < int n
       then err_kfree_msix_entries ap p (err ENOSPC) (s2\<lparr>led := release (IrqVectors pd) l\<rparr>)
     else setup_vectors env pd ap A l s)"
proof -
  have g: "rd_globals s A = Some (glob s)" using assms(7) by (simp add: rd_globals_def)
  have n: "s32 (uint (nEvents (glob s))) = int (unat (nEvents (glob s)))"
    using vectors_31[OF assms(10) _ assms(8)] assms(9) by simp
  have s1: "set_IRQ_private (drvdata P) (Some (kz_entries env, blank_table (unat (nEvents (glob s)))))
      (k_acquire (Kmem (kz_entries env)) s) =
    Some (with_irqs (drvdata P) A (Some (kz_entries env, blank_table (unat (nEvents (glob s)))))
      (acquire (Kmem (kz_entries env)) (led s)) s)"
    by (rule set_IRQ_private_eq(1)[OF assms(6)])
  have w: "(with_irqs ap2 A x l2 s)\<lparr>led := l3\<rparr> = with_irqs ap2 A x l3 s" for ap2 x l2 l3
    by (simp add: with_irqs_def)
  show ?thesis
    using assms(9-11) unfolding FEE_ISR_setup_def setup_vectors_def ap_def p_def n_def l_def
    by (simp add: assms(5,6) g Let_def n s1 blank_table_def[symmetric] w del: bind_eq_Some cong: sum.case_cong)
qed

lemma setup_vectors_outcome:
  fixes s env pd A ap
  defines "l \<equiv> acquire (IrqVectors pd) (acquire (Kmem (kz_entries env)) (led s))"
  assumes "kz_entries env \<noteq> NULL"
  shows "\<exists>ret s'. setup_vectors env pd ap A l s = Some (ret, s') \<and>
    (if ret = 0 then setup_done env pd ap A s s' else setup_failed ap A s s')"
proof (cases "fill_vectors (r_irq_vector env) 0 (blank_table (unat (nEvents (glob s))))")
  case (Inl r)
  have "balanced (led s) (kfree (kz_entries env) (release (IrqVectors pd) l))"
    using assms(2) by (auto simp: balanced_def ledger_simps l_def)
  with fill_vectors_error[OF Inl] Inl show ?thesis by (auto simp: setup_vectors_def err_kfree_eq setup_failed_def)
next
  case (Inr es)
  let ?p = "kz_entries env"
  have es: "es = irq_table env (unat (nEvents (glob s)))" using Inr fill_vectors_table by (simp add: blank_table_def)
  have l: "mset (held l) = mset (held (led s)) + {#Kmem ?p, IrqVectors pd#}" "bad l = bad (led s)"
    by (simp_all add: l_def ledger_simps)
  obtain ret j t where rq: "request_irqs (r_request_irq env) 0 es (with_irqs ap A (Some (?p, es)) l s) = (ret, j, t)"
    by (cases "request_irqs (r_request_irq env) 0 es (with_irqs ap A (Some (?p, es)) l s)")
  note fin = setup_request[OF rq assms(2) l]
  have eq: "setup_vectors env pd ap A l s = (if ret = 0 then Some (0, t)
      else err_kfree_msix_entries ap ?p ret (k_release (IrqVectors pd) (free_irqs (take j es) t)))"
    unfolding setup_vectors_def Let_def using rq
    by (simp only: Inr sum.case set_IRQ_private_eq bind.simps(2) prod.case)
  show ?thesis using fin assms(2) es by (cases "ret = 0") (auto simp: eq setup_done_def setup_failed_def)
qed

lemma setup_outcome:
  assumes "pdevs s pd = Some P" "adapters s (drvdata P) = Some A" "globals A \<noteq> NULL"
    and "int32_range (r_vec_count env)"
  shows "\<exists>ret s'. FEE_ISR_setup env pd s = Some (ret, s') \<and>
    (if ret = 0 then setup_done env pd (drvdata P) A s s' else setup_failed (drvdata P) A s s')"
proof -
  let ?ap = "drvdata P" and ?n = "unat (nEvents (glob s))" and ?p = "kz_entries env"
  have g: "rd_globals s A = Some (glob s)" using assms(3) by (simp add: rd_globals_def)
  consider (neg) "r_vec_count env < 0" | (few) "0 \<le> r_vec_count env" "r_vec_count env < 16"
    | (small) "16 \<le> r_vec_count env" "nEvents (glob s) > word_of_int (r_vec_count env)"
    | (nomem) "16 \<le> r_vec_count env" "\<not> nEvents (glob s) > word_of_int (r_vec_count env)" "?p = NULL"
    | (go) "16 \<le> r_vec_count env" "\<not> nEvents (glob s) > word_of_int (r_vec_count env)" "?p \<noteq> NULL"
    by linarith
  then show ?thesis
  proof cases
    case nomem
    have "err_kfree_msix_entries ?ap NULL (err ENOMEM) s = Some (err ENOMEM, with_irqs ?ap A None (led s) s)"
      using set_IRQ_private_eq(1)[OF assms(2), of None "led s"]
      by (simp add: err_kfree_msix_entries_def ledger_simps)
    then show ?thesis
      using nomem by (auto simp: FEE_ISR_setup_def assms(1,2) g Let_def setup_failed_def)
  next
    case go
    have bal: "balanced (led s) (kfree ?p (acquire (Kmem ?p) (led s)))"
      "balanced (led s) (kfree ?p (release (IrqVectors pd) (acquire (IrqVectors pd) (acquire (Kmem ?p) (led s)))))"
      using go(3) by (auto simp: balanced_def ledger_simps)
    have e1: "err_kfree_msix_entries ?ap ?p ret (with_irqs ?ap A x l2 s) =
        Some (ret, with_irqs ?ap A None (kfree ?p l2) s)" for x l2 ret
      using err_kfree_eq[where l = l2 and l' = l2 and y = x and A = A and s = s] by (simp only: with_irqs_same)
    show ?thesis
      using setup_start[OF assms go] setup_vectors_outcome[OF go(3), where pd = pd and s = s and ap = ?ap and A = A] bal
      by (cases "r_alloc_vectors env < 0"; cases "r_alloc_vectors env < int ?n")
        (auto simp: Let_def e1 err_kfree_eq setup_failed_def)
  qed (auto simp: FEE_ISR_setup_def assms(1,2) g Let_def setup_failed_def)
qed

lemma teardown_eq:
  assumes "pdevs s pd = Some P" "adapters s (drvdata P) = Some A" "globals A \<noteq> NULL"
    and "IRQ_private A = Some (p, es)" "p \<noteq> NULL"
    and "mset (held (led s)) = M + {#Kmem p, IrqVectors pd#} + irq_res es"
  shows "length es < unat (nClients (glob s) + 2) \<Longrightarrow> FEE_ISR_teardown pd s = None"
    and "unat (nClients (glob s) + 2) \<le> length es \<Longrightarrow> \<exists>l. FEE_ISR_teardown pd s =
      Some (with_irqs (drvdata P) A None l s) \<and> bad l = bad (led s) \<and>
      mset (held l) = M + irq_res (drop (unat (nClients (glob s) + 2)) es)"
proof -
  let ?n = "unat (nClients (glob s) + 2)"
  have g: "rd_globals s A = Some (glob s)" using assms(3) by (simp add: rd_globals_def)
  show "length es < ?n \<Longrightarrow> FEE_ISR_teardown pd s = None"
    by (simp add: FEE_ISR_teardown_def assms g)
  assume n: "?n \<le> length es"
  let ?u = "free_irqs (take ?n es) s"
  have "irq_res es = irq_res (take ?n es) + irq_res (drop ?n es)"
    by (metis append_take_drop_id irq_res_simps(3))
  then have "mset (held (led s)) = (M + {#Kmem p, IrqVectors pd#} + irq_res (drop ?n es)) + irq_res (take ?n es)"
    using assms(6) by simp
  note fu = free_irqs_led(2,3)[OF this]
  obtain l where l: "?u = s\<lparr>led := l\<rparr>" using free_irqs_led(1) by (rule led_onlyE)
  have "FEE_ISR_teardown pd s =
      Some (with_irqs (drvdata P) A None (kfree p (release (IrqVectors pd) l)) s)"
    using n set_IRQ_private_eq(1)[OF assms(2)]
    by (simp add: FEE_ISR_teardown_def assms g Let_def l not_less)
  then show "\<exists>l. FEE_ISR_teardown pd s = Some (with_irqs (drvdata P) A None l s) \<and> bad l = bad (led s) \<and>
      mset (held l) = M + irq_res (drop ?n es)"
    using fu l assms(5)
    by (intro exI[of _ "kfree p (release (IrqVectors pd) l)"]) (simp add: ledger_simps)
qed

lemma all_msix_no_slot:
  assumes "fee_inv s" "adapters s ap = Some A" "\<not> incoming_slot_lock A"
    and "IRQ_private A = Some (p, es)" "irq_table_ok (glob s) es"
    and "1 \<le> n" "n < unat (nEvents (glob s))" "n < 2 ^ 16" "\<not> valid_id (glob s) n"
  shows "all_msix env (vector (es ! n)) ap s = Some (IRQ_HANDLED, s)"
proof -
  have lock: "spin_lock ap s = Some (locked ap A s)"
    using assms(2,3) by (simp add: spin_lock_def locked_def)
  have g: "globals A \<noteq> NULL" using adapter_ok_globals[OF fee_inv_adapter[OF assms(1,2)]] .
  have e: "unat (ucast (entry (es ! n)) :: uint32) = n"
    using assms(5,7,8) by (simp add: irq_table_ok_def c_conv unat_of_nat)
  have "calculate_mailslot (locked ap A s) (A\<lparr>incoming_slot_lock := True\<rparr>) (ucast (entry (es ! n))) = Some NULL"
    using calculate_mailslot_eq[of "A\<lparr>incoming_slot_lock := True\<rparr>" "locked ap A s" "ucast (entry (es ! n))"]
      g assms(9) by (simp add: e)
  then show ?thesis
    using assms(7) g unlock_locked[OF assms(2,3)]
    unfolding all_msix_def assms(2) Let_def bind.simps(2) lock
    by (simp add: assms(4) rd_globals_def match_vector_table[OF assms(5,6,7), simplified])
qed

lemma all_msix_unmatched:
  assumes "fee_inv s" "adapters s ap = Some A" "\<not> incoming_slot_lock A"
    and "IRQ_private A = Some (p, es)" "length es = unat (nEvents (glob s))" "1 \<le> length es"
    and "\<forall>j. 1 \<le> j \<and> j < length es \<longrightarrow> vector (es ! j) \<noteq> v"
  shows "all_msix env v ap s = Some (IRQ_NONE, s)"
proof -
  have lock: "spin_lock ap s = Some (locked ap A s)"
    using assms(2,3) by (simp add: spin_lock_def locked_def)
  have g: "globals A \<noteq> NULL" using adapter_ok_globals[OF fee_inv_adapter[OF assms(1,2)]] .
  have "match_vector es v (unat (nEvents (glob s))) 1 = Some (unat (nEvents (glob s)))"
    using assms(5-7) by (intro match_vector_missing) auto
  then show ?thesis
    using g unlock_locked[OF assms(2,3)]
    unfolding all_msix_def assms(2) Let_def bind.simps(2) lock
    by (simp add: assms(4) rd_globals_def)
qed

text \<open>The states of the witnesses: a device with 16 vectors, and client 3 with its interrupts set up,
  about to get the one for a text of client 5.\<close>

definition irq_env :: msix_env where
  "irq_env = \<lparr>r_vec_count = 16, kz_entries = 0xC000, r_alloc_vectors = 16,
     r_irq_vector = (\<lambda>i. 40 + int i), r_request_irq = (\<lambda>_. 0)\<rparr>"

definition example_pdev :: pci_dev where
  "example_pdev = \<lparr>drvdata = 0xA000, devfn = 32, revision = 1, msix_cap = 64, bar1_start = 4096,
     bar1_name = ''0000:00:04.0'', pci_slot = Some 4, pci_slot_name = ''4'', IVPosition = 3\<rparr>"

definition probe_state :: fee_state where
  "probe_state = example_state\<lparr>pdevs := [0x100 \<mapsto> example_pdev]\<rparr>"

definition irq_adapter :: FEE_adapter where
  "irq_adapter = example_adapter\<lparr>IRQ_private := Some (0xC000, irq_table irq_env 16), ad_core := 0x9000\<rparr>"

definition irq_state :: "string \<Rightarrow> fee_state" where
  "irq_state msg = wr_adapter 0xA000 irq_adapter (inbox_state msg)"

lemma example_irq_table: "irq_table_ok example_globals (irq_table irq_env 16)" "length (irq_table irq_env 16) = 16"
  by (simp_all add: irq_table_ok_def irq_table_def example_globals_def irq_env_def distinct_map inj_on_def)

lemma irq_state_simps:
  "adapters (irq_state msg) 0xA000 = Some irq_adapter" "glob (irq_state msg) = example_globals"
  "mail (irq_state msg) = mail (inbox_state msg)" "outbox (irq_state msg) 3 = None"
  "\<not> incoming_slot_lock irq_adapter" "IRQ_private irq_adapter = Some (0xC000, irq_table irq_env 16)"
  "my_id irq_adapter = 3" "globals irq_adapter = 0x20000" "vector (irq_table irq_env 16 ! 5) = 45"
  "unat (nEvents example_globals) = 16"
  by (simp_all add: irq_state_def inbox_state_simps inbox_state_free irq_adapter_def example_adapter_def)
    (simp_all add: wr_adapter_def inbox_state_simps irq_table_def irq_env_def example_globals_def)

lemma irq_state_inv:
  assumes "length msg < 384"
  shows "fee_inv (irq_state msg)"
  unfolding irq_state_def
proof (rule fee_inv_adapter_upd[OF inbox_state_inv[OF assms]])
  have "adapter_ok example_globals example_adapter"
    using fee_inv_adapter[OF example_state_inv, of "0xA000" example_adapter] by (simp add: example_state_def)
  then show "adapter_ok (glob (inbox_state msg)) irq_adapter"
    by (simp add: inbox_state_simps adapter_ok_def irq_adapter_def)
qed simp

lemma probe_state_simps:
  "pdevs probe_state 0x100 = Some example_pdev" "adapters probe_state (drvdata example_pdev) = Some example_adapter"
  "globals example_adapter \<noteq> NULL" "int32_range (r_vec_count irq_env)" "glob probe_state = example_globals"
  by (simp_all add: probe_state_def example_pdev_def example_state_def example_adapter_def irq_env_def int32_range_def)

section \<open>Properties\<close>

text \<open>C13: the interrupt handler on the table that the setup built. The vector of entry \<open>n\<close> delivers the
  mailslot of client \<open>n\<close>: for an ordinary message the adapter's incoming slot is that slot, the message
  itself is untouched, the lock is free again and the invariant holds. A vector whose number is no id is
  handled without effect, and a vector that is not in the table, or that of entry 0, is refused without
  effect.\<close>

theorem msix_delivery:
  assumes "fee_inv s" "adapters s ap = Some A" "\<not> incoming_slot_lock A"
    and "IRQ_private A = Some (p, es)" "irq_table_ok (glob s) es" "1 \<le> length es"
  shows "(\<forall>n. 1 \<le> n \<and> n < length es \<and> n < 2 ^ 16 \<longrightarrow>
      (if \<not> valid_id (glob s) n then all_msix env (vector (es ! n)) ap s = Some (IRQ_HANDLED, s)
       else link_kind (mail s (slot_off (glob s) n)) = NotLink \<longrightarrow>
         (\<exists>s'. all_msix env (vector (es ! n)) ap s = Some (IRQ_HANDLED, s') \<and> fee_inv s' \<and>
            outbox s' = outbox s \<and> doorbells s' = doorbells s \<and>
            adapters s' = (adapters s)(ap \<mapsto> A\<lparr>incoming_slot := globals A + slot_off (glob s) n\<rparr>)))) \<and>
    (\<forall>v. (\<forall>j. 1 \<le> j \<and> j < length es \<longrightarrow> vector (es ! j) \<noteq> v) \<longrightarrow> all_msix env v ap s = Some (IRQ_NONE, s))"
proof (intro conjI allI impI)
  fix n
  assume n: "1 \<le> n \<and> n < length es \<and> n < 2 ^ 16"
  then have n': "1 \<le> n" "n < unat (nEvents (glob s))" "n < 2 ^ 16"
    using assms(5) by (auto simp: irq_table_ok_def)
  show "if \<not> valid_id (glob s) n then all_msix env (vector (es ! n)) ap s = Some (IRQ_HANDLED, s)
       else link_kind (mail s (slot_off (glob s) n)) = NotLink \<longrightarrow>
         (\<exists>s'. all_msix env (vector (es ! n)) ap s = Some (IRQ_HANDLED, s') \<and> fee_inv s' \<and>
            outbox s' = outbox s \<and> doorbells s' = doorbells s \<and>
            adapters s' = (adapters s)(ap \<mapsto> A\<lparr>incoming_slot := globals A + slot_off (glob s) n\<rparr>))"
    using all_msix_no_slot[OF assms(1-5) n'] all_msix_delivers[OF assms(1-5) n']
      delivered_inv[OF assms(1,2)] delivered_outbox[OF fee_inv_globals[OF assms(1)]] by auto
next
  fix v
  assume "\<forall>j. 1 \<le> j \<and> j < length es \<longrightarrow> vector (es ! j) \<noteq> v"
  then show "all_msix env v ap s = Some (IRQ_NONE, s)"
    using all_msix_unmatched[OF assms(1-4) _ assms(6)] assms(5) by (auto simp: irq_table_ok_def)
qed

theorem msix_delivery_witness:
  "(\<exists>s'. all_msix example_env 45 0xA000 (irq_state ''hello'') = Some (IRQ_HANDLED, s') \<and> fee_inv s' \<and>
      outbox s' = outbox (irq_state ''hello'') \<and>
      (\<exists>A'. adapters s' 0xA000 = Some A' \<and> incoming_slot A' = 0x20000 + slot_off example_globals 5)) \<and>
   all_msix example_env 40 0xA000 (irq_state ''hello'') = Some (IRQ_NONE, irq_state ''hello'')"
proof -
  note st = irq_state_simps
  have k: "link_kind (mail (inbox_state ''hello'') (slot_off example_globals 5)) = NotLink"
    unfolding inbox_state_simps by code_simp
  have v: "\<forall>j. 1 \<le> j \<and> j < length (irq_table irq_env 16) \<longrightarrow> vector (irq_table irq_env 16 ! j) \<noteq> 40"
    by (simp add: irq_table_def irq_env_def)
  have inv: "fee_inv (irq_state ''hello'')" by (rule irq_state_inv) simp
  have tab: "irq_table_ok (glob (irq_state ''hello'')) (irq_table irq_env 16)" "1 \<le> length (irq_table irq_env 16)"
    using example_irq_table by (simp_all add: st)
  note d = msix_delivery[OF inv st(1) st(5,6) tab, where env = example_env]
  have "all_msix example_env 40 0xA000 (irq_state ''hello'') = Some (IRQ_NONE, irq_state ''hello'')"
    using d[THEN conjunct2, rule_format, of 40] v by blast
  moreover have "\<exists>s'. all_msix example_env 45 0xA000 (irq_state ''hello'') = Some (IRQ_HANDLED, s') \<and> fee_inv s' \<and>
      outbox s' = outbox (irq_state ''hello'') \<and>
      (\<exists>A'. adapters s' 0xA000 = Some A' \<and> incoming_slot A' = 0x20000 + slot_off example_globals 5)"
    using d[THEN conjunct1, rule_format, of 5] k by (auto simp: st inbox_state_simps(4) example_irq_table)
  ultimately show ?thesis by blast
qed

text \<open>a link message is answered from the interrupt: on the vector of client \<open>n\<close>, with a ping, a
  peer-attribute request or a control write in that client's slot and the receiver's own slot free, the
  handler leaves the answer for \<open>n\<close> in the receiver's slot and frees the sender's.\<close>

lemma msix_link_answer:
  fixes s n A ap core
  defines "k \<equiv> link_kind (mail s (slot_off (glob s) n))"
  assumes "fee_inv s" "adapters s ap = Some A" "\<not> incoming_slot_lock A"
    and "IRQ_private A = Some (p, es)" "irq_table_ok (glob s) es"
    and "1 \<le> n" "n < unat (nEvents (glob s))" "n < 2 ^ 16" "valid_id (glob s) n"
    and "k \<noteq> NotLink" "k = Ping \<or> cores s (ad_core A) = Some core \<and> core_ok core"
    and "n = unat (my_id A) \<or> outbox s (unat (my_id A)) = None" "86 < payload_size (glob s)"
  shows "\<exists>s'. all_msix env (vector (es ! n)) ap s = Some (IRQ_HANDLED, s') \<and> fee_inv s' \<and>
    outbox s' = (outbox s)(n := None, unat (my_id A) \<mapsto> (n, link_answer k core)) \<and>
    doorbells s' = doorbells s @ [(ap, ringer (of_nat n) (my_id A))] \<and> adapters s' = adapters s"
proof -
  let ?A = "A\<lparr>incoming_slot_lock := True\<rparr>" and ?s = "locked ap A s"
  have k: "link_kind (mail ?s (slot_off (glob ?s) n)) = k" by (simp add: k_def)
  have A: "adapters ?s ap = Some ?A" by simp
  have same: "(adapters s)(ap \<mapsto> A\<lparr>incoming_slot_lock := False\<rparr>) = adapters s"
    using assms(3,4) by (simp add: map_upd_triv)
  have "\<exists>s'. FEE_link_request env (globals ?A + slot_off (glob ?s) n) ap ?s = Some (IRQ_HANDLED, s') \<and>
    fee_inv s' \<and> outbox s' = (outbox ?s)(n := None, unat (my_id ?A) \<mapsto> (n, link_answer k core)) \<and>
    doorbells s' = doorbells ?s @ [(ap, ringer (of_nat n) (my_id ?A))] \<and>
    adapters s' = (adapters ?s)(ap \<mapsto> ?A\<lparr>incoming_slot_lock := False\<rparr>) \<and>
    cores s' = cores (assigned (ad_core ?A) k ?s)"
    using link_request_answers[OF locked_inv[OF assms(2,3)] A, of n core env] assms(10-14)
    unfolding k by auto
  then show ?thesis using all_msix_link[OF assms(2-10)] same by auto
qed

lemma msix_link_answer_witness:
  "\<exists>s'. all_msix example_env 45 0xA000 (irq_state ''ping'') = Some (IRQ_HANDLED, s') \<and> fee_inv s' \<and>
     outbox s' 5 = None \<and> outbox s' 3 = Some (5, ''pong'')"
proof -
  note st = irq_state_simps
  have k: "link_kind (mail (inbox_state ''ping'') (slot_off example_globals 5)) = Ping"
    unfolding inbox_state_simps by code_simp
  have p: "86 < payload_size example_globals" by code_simp
  from msix_link_answer[OF irq_state_inv st(1) st(5,6), of "''ping''" 5 bridge_core example_env] example_irq_table(1) k p
  show ?thesis by (auto simp: st inbox_state_simps(4))
qed

text \<open>C31: the setup of the interrupts always returns. On success the adapter's table has one entry per
  event, entry \<open>i\<close> for client \<open>i\<close>, every interrupt is requested, and exactly the table, the vectors and
  the interrupts are held; on any failure everything acquired on the way has been given back, once, and
  the table pointer is NULL or untouched.\<close>

theorem isr_setup_result:
  assumes "pdevs s pd = Some P" "adapters s (drvdata P) = Some A" "globals A \<noteq> NULL"
    and "int32_range (r_vec_count env)"
  shows "\<exists>ret s'. FEE_ISR_setup env pd s = Some (ret, s') \<and>
    (if ret = 0 then setup_done env pd (drvdata P) A s s' else setup_failed (drvdata P) A s s')"
  by (rule setup_outcome[OF assms])

theorem isr_setup_result_witness:
  "\<exists>s'. FEE_ISR_setup irq_env 0x100 probe_state = Some (0, s') \<and>
     setup_done irq_env 0x100 (drvdata example_pdev) example_adapter probe_state s'"
proof -
  have "map_option fst (FEE_ISR_setup irq_env 0x100 probe_state) = Some 0" by code_simp
  with isr_setup_result[OF probe_state_simps(1-4)] show ?thesis by auto
qed

text \<open>C35: a teardown after a successful setup gives back everything exactly when the server announced
  two events more than clients: the loop frees \<open>nClients + 2\<close> interrupts, while \<open>nEvents\<close> were requested.
  With more events the others stay requested, with fewer the loop reads behind the table.\<close>

theorem isr_teardown_frees:
  assumes "pdevs s pd = Some P" "adapters s (drvdata P) = Some A" "globals A \<noteq> NULL"
    and "int32_range (r_vec_count env)" "FEE_ISR_setup env pd s = Some (0, s1)"
  shows "if unat (nEvents (glob s)) < unat (nClients (glob s) + 2) then FEE_ISR_teardown pd s1 = None
    else \<exists>s2. FEE_ISR_teardown pd s1 = Some s2 \<and> bad (led s2) = bad (led s) \<and>
      adapters s2 = (adapters s)(drvdata P \<mapsto> A\<lparr>IRQ_private := None\<rparr>) \<and>
      mset (held (led s2)) = mset (held (led s)) +
        irq_res (drop (unat (nClients (glob s) + 2)) (irq_table env (unat (nEvents (glob s)))))"
proof -
  let ?ap = "drvdata P" and ?es = "irq_table env (unat (nEvents (glob s)))"
  let ?A = "A\<lparr>IRQ_private := Some (kz_entries env, ?es)\<rparr>"
  have "setup_done env pd ?ap A s s1" using setup_outcome[OF assms(1-4)] assms(5) by auto
  then obtain l where p: "kz_entries env \<noteq> NULL" and s1: "s1 = with_irqs ?ap A (Some (kz_entries env, ?es)) l s"
    and l: "bad l = bad (led s)"
      "mset (held l) = mset (held (led s)) + {#Kmem (kz_entries env), IrqVectors pd#} + irq_res ?es"
    by (auto simp: setup_done_def)
  have len: "length ?es = unat (nEvents (glob s))" by (simp add: irq_table_def)
  have st: "pdevs s1 pd = Some P" "adapters s1 ?ap = Some ?A" "globals ?A \<noteq> NULL"
    "IRQ_private ?A = Some (kz_entries env, ?es)" "glob s1 = glob s"
    "mset (held (led s1)) = mset (held (led s)) + {#Kmem (kz_entries env), IrqVectors pd#} + irq_res ?es"
    using assms(1,3) l by (simp_all add: s1)
  note td = teardown_eq[OF st(1-4) p st(6), unfolded st(5) len]
  show ?thesis
  proof (cases "unat (nEvents (glob s)) < unat (nClients (glob s) + 2)")
    case False
    then obtain l' where "FEE_ISR_teardown pd s1 = Some (with_irqs ?ap ?A None l' s1)" "bad l' = bad (led s1)"
      "mset (held l') = mset (held (led s)) + irq_res (drop (unat (nClients (glob s) + 2)) ?es)"
      using td(2) by auto
    with False l(1) show ?thesis by (simp add: s1)
  qed (simp add: td(1))
qed

theorem isr_teardown_frees_witness:
  "\<exists>s1 s2. FEE_ISR_setup irq_env 0x100 probe_state = Some (0, s1) \<and> FEE_ISR_teardown 0x100 s1 = Some s2 \<and>
     balanced (led probe_state) (led s2)"
proof -
  have "map_option fst (FEE_ISR_setup irq_env 0x100 probe_state) = Some 0" by code_simp
  then obtain s1 where r: "FEE_ISR_setup irq_env 0x100 probe_state = Some (0, s1)" by auto
  have n: "unat (nClients example_globals + 2) = 16" "unat (nEvents example_globals) = 16" by code_simp+
  have "drop 16 (irq_table irq_env 16) = []" by (simp add: irq_table_def)
  with isr_teardown_frees[OF probe_state_simps(1-4) r] r show ?thesis
    by (auto simp: probe_state_simps(5) n balanced_def)
qed



end
