(* ===== verification/Fee_Adapter.thy ===== *)
theory Fee_Adapter
  imports Fee_MSIX
begin

text \<open>
  Adapters, \<open>shim_bridge/fee_adapter.c\<close>: mapping the BARs of an IVSHMEM device, building the adapter with
  its own mailslot, and taking it down again. The lemmas show that a created adapter satisfies the
  invariant of the mailbox, that creation followed by destruction gives everything back, and which
  failure paths release the PCI regions once too often.
\<close>

section \<open>Operations\<close>

text \<open>The kernel's answers during a creation: the allocation, the PCI calls, and the node's name.\<close>

record adapter_env =
  kz_adapter :: addr
  r_request_regions :: int
  iomap0 :: addr
  iomap2 :: addr
  uts_nodename :: string

definition DEFAULT_CCLASS :: string where "DEFAULT_CCLASS = ''FEEadapter''"

definition zero_adapter :: FEE_adapter where
  "zero_adapter = \<lparr>nr_users = 0, pdev = NULL, ad_slot = 0, max_buflen = 0, my_id = 0, regs = NULL,
     globals = NULL, my_slot = NULL, IRQ_private = None, incoming_slot = NULL, incoming_slot_lock = False,
     outgoing = None, ad_core = NULL, genz_chrdev = Inr NULL\<rparr>"

definition unmapBARs :: "addr \<Rightarrow> fee_state \<Rightarrow> fee_state option" where
  "unmapBARs pd s = do {
     P \<leftarrow> pdevs s pd;
     A \<leftarrow> adapters s (drvdata P);
     let s1 = (if regs A \<noteq> NULL then k_release (IoMap (regs A)) s else s);
     let s2 = (if globals A \<noteq> NULL then k_release (IoMap (globals A)) s1 else s1);
     Some (k_release (PciRegions pd) (wr_adapter (drvdata P) (A\<lparr>regs := NULL, globals := NULL\<rparr>) s2))
   }"

definition mapBARs :: "adapter_env \<Rightarrow> addr \<Rightarrow> fee_state \<Rightarrow> (int \<times> fee_state) option" where
  "mapBARs env pd s = do {
     P \<leftarrow> pdevs s pd;
     A \<leftarrow> adapters s (drvdata P);
     if r_request_regions env < 0 then Some (r_request_regions env, s)
     else do {
       let s1 = k_acquire (PciRegions pd) s;
       let s2 = wr_adapter (drvdata P) (A\<lparr>regs := iomap0 env\<rparr>) s1;
       if iomap0 env = NULL then do { s3 \<leftarrow> unmapBARs pd s2; Some (err ENOMEM, s3) }
       else do {
         let s3 = k_acquire (IoMap (iomap0 env)) s2;
         let s4 = wr_adapter (drvdata P) (A\<lparr>regs := iomap0 env, globals := iomap2 env\<rparr>) s3;
         if iomap2 env = NULL then do { s5 \<leftarrow> unmapBARs pd s4; Some (err ENOMEM, s5) }
         else Some (0, k_acquire (IoMap (iomap2 env)) s4)
       }
     }
   }"

definition set_drvdata :: "addr \<Rightarrow> addr \<Rightarrow> fee_state \<Rightarrow> fee_state option" where
  "set_drvdata pd x s = do { P \<leftarrow> pdevs s pd; Some (s\<lparr>pdevs := (pdevs s)(pd \<mapsto> P\<lparr>drvdata := x\<rparr>)\<rparr>) }"

definition FEE_adapter_destroy :: "addr \<Rightarrow> fee_state \<Rightarrow> fee_state option" where
  "FEE_adapter_destroy ap s =
     (if ap = NULL then Some s
      else do {
        A \<leftarrow> adapters s ap;
        if pdev A = NULL then Some s
        else do {
          s1 \<leftarrow> unmapBARs (pdev A) s;
          s2 \<leftarrow> set_drvdata (pdev A) NULL s1;
          let s3 = (case IRQ_private A of None \<Rightarrow> s2 | Some (p, _) \<Rightarrow> k_kfree p s2);
          let s4 = (case outgoing A of None \<Rightarrow> s3 | Some b \<Rightarrow> k_kfree (bb_ptr b) s3);
          s5 \<leftarrow> genz_core_structure_destroy (ad_core A) s4;
          Some ((k_kfree ap s5)\<lparr>adapters := (adapters s5)(ap := None)\<rparr>)
        }
      })"

text \<open>The slot as \<open>memset\<close> and the stores after it leave it.\<close>

definition fresh_slot :: "FEE_globals \<Rightarrow> uint16 \<Rightarrow> string \<Rightarrow> nat \<Rightarrow> FEE_mailslot option" where
  "fresh_slot G me node dev = do {
     let zero = replicate 32 NUL;
     nn \<leftarrow> snprintf zero 31 (format [Arg (FS node), Lit ''.'', Arg (FX2 (drop_bit 3 dev))]);
     cc \<leftarrow> strncpy zero DEFAULT_CCLASS 31;
     Some \<lparr>nodename = nn, cclass = cc, buflen = 0, peer_id = ucast me, last_responder = 0, peer_SID = 0,
       peer_CID = 0, pad = replicate 3 0, buf = replicate (unat (slotsize G) - 128) NUL\<rparr>
   }"

definition FEE_adapter_create :: "adapter_env \<Rightarrow> addr \<Rightarrow> fee_state \<Rightarrow> (errptr \<times> fee_state) option" where
  "FEE_adapter_create env pd s = do {
     let ap = kz_adapter env;
     if ap = NULL then Some (Inl (err ENOMEM), s)
     else do {
       P \<leftarrow> pdevs s pd;
       s1 \<leftarrow> set_drvdata pd ap (wr_adapter ap
               (zero_adapter\<lparr>pdev := pd, ad_slot := int (drop_bit 3 (devfn P))\<rparr>) (k_acquire (Kmem ap) s));
       (ret, s2) \<leftarrow> mapBARs env pd s1;
       if ret \<noteq> 0 then do { s3 \<leftarrow> FEE_adapter_destroy ap s2; Some (Inl ret, s3) }
       else do {
         A \<leftarrow> adapters s2 ap;
         G \<leftarrow> rd_globals s2 A;
         if MSG_OFFSET \<noteq> buf_offset G \<or> slotsize G \<le> buf_offset G
         then do { s3 \<leftarrow> FEE_adapter_destroy ap s2; Some (Inl (err EINVAL), s3) }
         else do {
           let A1 = A\<lparr>max_buflen := slotsize G - buf_offset G, my_id := ucast (IVPosition P)\<rparr>;
           slot \<leftarrow> calculate_mailslot s2 A1 (ucast (my_id A1));
           let A2 = A1\<lparr>my_slot := slot\<rparr>;
           let s3 = wr_adapter ap A2 s2;
           if slot = NULL then do { s4 \<leftarrow> FEE_adapter_destroy ap s3; Some (Inl (err EINVAL), s4) }
           else do {
             m \<leftarrow> rd_slot s3 A2 slot;
             if ucast (my_id A2) \<noteq> peer_id m
             then do { s4 \<leftarrow> FEE_adapter_destroy ap s3; Some (Inl (err EINVAL), s4) }
             else do {
               m' \<leftarrow> fresh_slot G (my_id A2) (uts_nodename env) (devfn P);
               Some (Inr ap, wr_slot A2 slot m' s3)
             }
           }
         }
       }
     }
   }"

section \<open>Lemmas\<close>

text \<open>The states between allocation and return: only the ledger, the new adapter and the device's
  back pointer differ from the state before the call.\<close>

definition built :: "addr \<Rightarrow> FEE_adapter \<Rightarrow> addr \<Rightarrow> pci_dev \<Rightarrow> ledger \<Rightarrow> fee_state \<Rightarrow> fee_state" where
  "built ap A pd P l s = s\<lparr>led := l, adapters := (adapters s)(ap \<mapsto> A), pdevs := (pdevs s)(pd \<mapsto> P\<lparr>drvdata := ap\<rparr>)\<rparr>"

definition gone :: "addr \<Rightarrow> addr \<Rightarrow> pci_dev \<Rightarrow> ledger \<Rightarrow> fee_state \<Rightarrow> fee_state" where
  "gone ap pd P l s = s\<lparr>led := l, adapters := (adapters s)(ap := None), pdevs := (pdevs s)(pd \<mapsto> P\<lparr>drvdata := NULL\<rparr>)\<rparr>"

definition unmap_led :: "addr \<Rightarrow> FEE_adapter \<Rightarrow> ledger \<Rightarrow> ledger" where
  "unmap_led pd A l =
     (let l1 = (if regs A \<noteq> NULL then release (IoMap (regs A)) l else l);
          l2 = (if globals A \<noteq> NULL then release (IoMap (globals A)) l1 else l1)
      in release (PciRegions pd) l2)"

lemma built_simps [simp]:
  "led (built ap A pd P l s) = l" "adapters (built ap A pd P l s) = (adapters s)(ap \<mapsto> A)"
  "pdevs (built ap A pd P l s) = (pdevs s)(pd \<mapsto> P\<lparr>drvdata := ap\<rparr>)" "glob (built ap A pd P l s) = glob s"
  "mail (built ap A pd P l s) = mail s" "cores (built ap A pd P l s) = cores s"
  by (simp_all add: built_def)

lemma built_led: "(built ap A pd P l s)\<lparr>led := l'\<rparr> = built ap A pd P l' s"
  by (rule fee_state.equality) (simp_all add: built_def)

lemma built_wr: "wr_adapter ap A' (built ap A pd P l s) = built ap A' pd P l s"
  by (rule fee_state.equality) (simp_all add: built_def wr_adapter_def)

lemma unmap_built:
  "unmapBARs pd (built ap A pd P l s) = Some (built ap (A\<lparr>regs := NULL, globals := NULL\<rparr>) pd P (unmap_led pd A l) s)"
  by (simp add: unmapBARs_def unmap_led_def Let_def built_led built_wr)

lemma destroy_built:
  assumes "ap \<noteq> NULL" "pd \<noteq> NULL" "pdev A = pd" "IRQ_private A = None" "outgoing A = None" "ad_core A = NULL"
  shows "FEE_adapter_destroy ap (built ap A pd P l s) = Some (gone ap pd P (release (Kmem ap) (unmap_led pd A l)) s)"
proof -
  have "(built ap (A\<lparr>regs := NULL, globals := NULL\<rparr>) pd P (unmap_led pd A l) s)
      \<lparr>pdevs := (pdevs s)(pd \<mapsto> P\<lparr>drvdata := NULL\<rparr>), led := l', adapters := (adapters s)(ap := None)\<rparr> = gone ap pd P l' s" for l'
    by (rule fee_state.equality) (simp_all add: built_def gone_def)
  then show ?thesis
    using assms
    by (simp add: FEE_adapter_destroy_def unmap_built set_drvdata_def genz_core_structure_destroy_def Let_def
        kfree_nonnull)
qed

lemma create_start:
  assumes "pdevs s pd = Some P"
  shows "set_drvdata pd ap (wr_adapter ap A (k_acquire (Kmem ap) s)) =
    Some (built ap A pd P (acquire (Kmem ap) (led s)) s)"
  using assms by (simp add: set_drvdata_def built_def wr_adapter_def)

lemma mapBARs_built:
  assumes "regs A = NULL" "globals A = NULL"
  shows "mapBARs env pd (built ap A pd P l s) =
    (if r_request_regions env < 0 then Some (r_request_regions env, built ap A pd P l s)
     else if iomap0 env = NULL
     then Some (err ENOMEM, built ap A pd P (release (PciRegions pd) (acquire (PciRegions pd) l)) s)
     else if iomap2 env = NULL
     then Some (err ENOMEM, built ap A pd P (release (PciRegions pd) (release (IoMap (iomap0 env))
            (acquire (IoMap (iomap0 env)) (acquire (PciRegions pd) l)))) s)
     else Some (0, built ap (A\<lparr>regs := iomap0 env, globals := iomap2 env\<rparr>) pd P
            (acquire (IoMap (iomap2 env)) (acquire (IoMap (iomap0 env)) (acquire (PciRegions pd) l))) s))"
proof -
  have eq: "A\<lparr>regs := NULL, globals := NULL\<rparr> = A" using assms by simp
  show ?thesis
    using assms by (simp add: mapBARs_def Let_def built_led built_wr unmap_built unmap_led_def eq)
qed

text \<open>The resources of a mapped adapter.\<close>

definition adapter_res :: "addr \<Rightarrow> addr \<Rightarrow> FEE_adapter \<Rightarrow> kres multiset" where
  "adapter_res ap pd A = {#Kmem ap, PciRegions pd, IoMap (regs A), IoMap (globals A)#}"

lemma unmap_led_mapped:
  assumes "mset (held l) = M + adapter_res ap pd A" "regs A \<noteq> NULL" "globals A \<noteq> NULL"
  shows "mset (held (release (Kmem ap) (unmap_led pd A l))) = M"
    and "bad (release (Kmem ap) (unmap_led pd A l)) = bad l"
  using assms by (simp_all add: unmap_led_def adapter_res_def ledger_simps)

lemma fresh_slot_ok:
  assumes "globals_ok G" "ucast me = (of_nat n :: uint64)"
  shows "\<exists>m. fresh_slot G me node dev = Some m \<and> slot_ok G n m \<and> buflen m = 0 \<and> cstr (cclass m) = DEFAULT_CCLASS"
proof -
  have "strncpy (replicate 32 NUL) DEFAULT_CCLASS 31 = Some (DEFAULT_CCLASS @ replicate 22 NUL)"
    unfolding DEFAULT_CCLASS_def by code_simp
  moreover have "\<exists>nn. snprintf (replicate 32 NUL) 31 t = Some nn \<and> length nn = 32" for t
    by (simp add: snprintf_def store_at_def)
  moreover have "cstr (DEFAULT_CCLASS @ replicate 22 NUL) = DEFAULT_CCLASS" "length DEFAULT_CCLASS = 10"
    unfolding DEFAULT_CCLASS_def by code_simp+
  ultimately show ?thesis
    using assms payload_size_pos[OF assms(1)] slotsize_pos[OF assms(1)]
    by (fastforce simp: fresh_slot_def Let_def slot_ok_def payload_size_def terminated_def)
qed

lemma gone_fresh:
  assumes "pdevs s pd = Some P" "drvdata P = NULL" "adapters s ap = None"
  shows "gone ap pd P l s = s\<lparr>led := l\<rparr>"
proof -
  have "P\<lparr>drvdata := NULL\<rparr> = P" using assms(2) by simp
  moreover have "(adapters s)(ap := None) = adapters s" using assms(3) by auto
  ultimately show ?thesis
    using assms(1) by (intro fee_state.equality) (simp_all add: gone_def map_upd_triv)
qed

text \<open>The adapter a successful creation builds.\<close>

definition new_adapter :: "adapter_env \<Rightarrow> addr \<Rightarrow> pci_dev \<Rightarrow> FEE_globals \<Rightarrow> FEE_adapter" where
  "new_adapter env pd P G = zero_adapter\<lparr>pdev := pd, ad_slot := int (drop_bit 3 (devfn P)),
     regs := iomap0 env, globals := iomap2 env, max_buflen := slotsize G - buf_offset G,
     my_id := ucast (IVPosition P), my_slot := iomap2 env + slot_off G (unat (ucast (IVPosition P) :: uint16))\<rparr>"

lemma new_adapter_simps [simp]:
  "globals (new_adapter env pd P G) = iomap2 env" "regs (new_adapter env pd P G) = iomap0 env"
  "my_id (new_adapter env pd P G) = ucast (IVPosition P)" "pdev (new_adapter env pd P G) = pd"
  "IRQ_private (new_adapter env pd P G) = None" "outgoing (new_adapter env pd P G) = None"
  "ad_core (new_adapter env pd P G) = NULL" "incoming_slot_lock (new_adapter env pd P G) = False"
  "incoming_slot (new_adapter env pd P G) = NULL"
  "ad_slot (new_adapter env pd P G) = int (drop_bit 3 (devfn P))"
  by (simp_all add: new_adapter_def zero_adapter_def)

lemma new_adapter_ok:
  assumes "globals_ok G" "mapped_ok (iomap2 env) G" "iomap0 env \<noteq> NULL"
    and "valid_id G (unat (ucast (IVPosition P) :: uint16))"
  shows "adapter_ok G (new_adapter env pd P G)"
  using assms by (simp add: adapter_ok_def) (simp add: new_adapter_def)

definition map_error :: "adapter_env \<Rightarrow> int" where
  "map_error env = (if r_request_regions env < 0 then r_request_regions env
     else if iomap0 env = NULL \<or> iomap2 env = NULL then err ENOMEM else 0)"

lemma create_map_fails:
  assumes "pdevs s pd = Some P" "pd \<noteq> NULL" "kz_adapter env \<noteq> NULL" "drvdata P = NULL"
    and "adapters s (kz_adapter env) = None" "map_error env \<noteq> 0"
  shows "\<exists>l. FEE_adapter_create env pd s = Some (Inl (map_error env), s\<lparr>led := l\<rparr>) \<and>
    mset (held l) = mset (held (led s)) - {#PciRegions pd#} \<and>
    bad l = (if holds (PciRegions pd) (led s) then bad (led s) else PciRegions pd # bad (led s))"
proof -
  let ?ap = "kz_adapter env"
  let ?A = "zero_adapter\<lparr>pdev := pd, ad_slot := int (drop_bit 3 (devfn P))\<rparr>"
  have A: "pdev ?A = pd" "IRQ_private ?A = None" "outgoing ?A = None" "ad_core ?A = NULL" "regs ?A = NULL"
    "globals ?A = NULL" by (simp_all add: zero_adapter_def)
  note start = create_start[OF assms(1), of ?ap ?A]
  note destroy = destroy_built[OF assms(3,2) A(1-4), of P _ s, unfolded gone_fresh[OF assms(1,4,5)]]
  define l0 where "l0 = acquire (Kmem ?ap) (led s)"
  define l where "l = (if r_request_regions env < 0 then l0
     else if iomap0 env = NULL then release (PciRegions pd) (acquire (PciRegions pd) l0)
     else release (PciRegions pd) (release (IoMap (iomap0 env)) (acquire (IoMap (iomap0 env)) (acquire (PciRegions pd) l0))))"
  have m: "mapBARs env pd (built ?ap ?A pd P l0 s) = Some (map_error env, built ?ap ?A pd P l s)"
    unfolding mapBARs_built[OF A(5,6)] l_def using assms(6) by (auto simp: map_error_def split: if_splits)
  have l: "mset (held l) = add_mset (Kmem ?ap) (mset (held (led s)))" "bad l = bad (led s)"
    by (simp_all add: l_def l0_def ledger_simps)
  have "FEE_adapter_create env pd s =
      Some (Inl (map_error env), s\<lparr>led := release (Kmem ?ap) (unmap_led pd ?A l)\<rparr>)"
    using assms(1,3,6) start m[unfolded l0_def] by (simp add: FEE_adapter_create_def Let_def destroy)
  then show ?thesis
    using l A(5,6)
    by (intro exI[of _ "release (Kmem ?ap) (unmap_led pd ?A l)"])
      (simp add: unmap_led_def ledger_simps)
qed

text \<open>The adapter once the BARs are mapped, with and without its slot, and the resources it holds then.\<close>

definition mapped_adapter :: "adapter_env \<Rightarrow> addr \<Rightarrow> pci_dev \<Rightarrow> FEE_globals \<Rightarrow> FEE_adapter" where
  "mapped_adapter env pd P G = zero_adapter\<lparr>pdev := pd, ad_slot := int (drop_bit 3 (devfn P)), regs := iomap0 env,
     globals := iomap2 env, max_buflen := slotsize G - buf_offset G, my_id := ucast (IVPosition P)\<rparr>"

definition mapped_led :: "adapter_env \<Rightarrow> addr \<Rightarrow> ledger \<Rightarrow> ledger" where
  "mapped_led env pd l = acquire (IoMap (iomap2 env)) (acquire (IoMap (iomap0 env))
     (acquire (PciRegions pd) (acquire (Kmem (kz_adapter env)) l)))"

lemma mapped_led_held:
  "mset (held (mapped_led env pd l)) = mset (held l) + adapter_res (kz_adapter env) pd (new_adapter env pd P G)"
  "bad (mapped_led env pd l) = bad l"
  by (simp_all add: mapped_led_def adapter_res_def new_adapter_def ledger_simps)

lemma create_mapped:
  fixes env P s pd
  defines "ap \<equiv> kz_adapter env" and "n \<equiv> unat (ucast (IVPosition P) :: uint16)" and "G \<equiv> glob s"
  defines "slot \<equiv> (if valid_id G n then iomap2 env + slot_off G n else NULL)"
  defines "A \<equiv> (mapped_adapter env pd P G)\<lparr>my_slot := slot\<rparr>"
  defines "s3 \<equiv> built ap A pd P (mapped_led env pd (led s)) s"
  assumes "fee_inv s" "pdevs s pd = Some P" "kz_adapter env \<noteq> NULL" "map_error env = 0"
  shows "FEE_adapter_create env pd s =
    (if slot = NULL then do { s4 \<leftarrow> FEE_adapter_destroy ap s3; Some (Inl (err EINVAL), s4) }
     else do {
       m \<leftarrow> rd_slot s3 A slot;
       if ucast (my_id A) \<noteq> peer_id m
       then do { s4 \<leftarrow> FEE_adapter_destroy ap s3; Some (Inl (err EINVAL), s4) }
       else do {
         m' \<leftarrow> fresh_slot G (my_id A) (uts_nodename env) (devfn P);
         Some (Inr ap, wr_slot A slot m' s3)
       }
     })"
proof -
  let ?Z = "zero_adapter\<lparr>pdev := pd, ad_slot := int (drop_bit 3 (devfn P))\<rparr>" and ?ap = "kz_adapter env"
  let ?id = "ucast (IVPosition P) :: uint16" and ?l = "mapped_led env pd (led s)"
  define B where "B = ?Z\<lparr>regs := iomap0 env, globals := iomap2 env\<rparr>"
  have B1: "B\<lparr>max_buflen := slotsize (glob s) - buf_offset (glob s), my_id := ?id\<rparr> = mapped_adapter env pd P (glob s)"
    by (simp add: B_def mapped_adapter_def)
  have io: "iomap0 env \<noteq> NULL" "iomap2 env \<noteq> NULL" "\<not> r_request_regions env < 0"
    using assms(10) by (auto simp: map_error_def split: if_splits)
  have m: "mapBARs env pd (built ?ap ?Z pd P (acquire (Kmem ?ap) (led s)) s) = Some (0, built ?ap B pd P ?l s)"
    using io by (simp add: mapBARs_built zero_adapter_def B_def mapped_led_def)
  have off: "(MSG_OFFSET \<noteq> buf_offset (glob s) \<or> slotsize (glob s) \<le> buf_offset (glob s)) = False"
    using fee_inv_globals[OF assms(7)] by (auto simp: globals_ok_def not_le)
  have Bs: "globals B = iomap2 env" "globals (mapped_adapter env pd P (glob s)) = iomap2 env"
    "my_id (mapped_adapter env pd P (glob s)) = ?id"
    by (simp_all add: B_def mapped_adapter_def)
  have calc: "calculate_mailslot (built ?ap B pd P ?l s) (mapped_adapter env pd P (glob s)) (ucast ?id) = Some slot"
    using io(2) by (simp add: calculate_mailslot_eq Bs c_conv slot_def G_def n_def)
  show ?thesis
    unfolding A_def s3_def ap_def G_def using assms(9) io(2)
    by (simp add: FEE_adapter_create_def Let_def assms(8) create_start[OF assms(8)] m rd_globals_def Bs calc
        B1 built_wr del: bind_eq_Some cong: if_cong) (use off in auto)
qed

lemma create_after_map:
  assumes "fee_inv s" "pdevs s pd = Some P" "pd \<noteq> NULL" "kz_adapter env \<noteq> NULL" "drvdata P = NULL"
    and "adapters s (kz_adapter env) = None" "map_error env = 0" "mapped_ok (iomap2 env) (glob s)"
  shows "\<exists>l. mset (held l) = mset (held (led s)) +
      adapter_res (kz_adapter env) pd (new_adapter env pd P (glob s)) \<and> bad l = bad (led s) \<and>
    (let n = unat (ucast (IVPosition P) :: uint16) in
     if valid_id (glob s) n
     then \<exists>m. fresh_slot (glob s) (ucast (IVPosition P)) (uts_nodename env) (devfn P) = Some m \<and>
       FEE_adapter_create env pd s = Some (Inr (kz_adapter env),
         (built (kz_adapter env) (new_adapter env pd P (glob s)) pd P l s)
           \<lparr>mail := (mail s)(slot_off (glob s) n := m)\<rparr>)
     else \<exists>l'. FEE_adapter_create env pd s = Some (Inl (err EINVAL), s\<lparr>led := l'\<rparr>) \<and> balanced (led s) l')"
proof -
  let ?ap = "kz_adapter env" and ?id = "ucast (IVPosition P) :: uint16" and ?G = "glob s"
  let ?n = "unat ?id" and ?l = "mapped_led env pd (led s)" and ?B = "mapped_adapter env pd P (glob s)"
  note create = create_mapped[OF assms(1,2,4,7)] and l = mapped_led_held(1)[of env pd "led s" P ?G] mapped_led_held(2)[of env pd "led s"]
  show ?thesis
  proof (cases "valid_id ?G ?n")
    case True
    let ?slot = "iomap2 env + slot_off ?G ?n"
    have nn: "?slot \<noteq> NULL"
      using slot_addr_nonnull[OF fee_inv_globals[OF assms(1)] assms(8) valid_id_le[OF True]] .
    have "peer_id (mail s (slot_off ?G ?n)) = ucast ?id"
      using fee_inv_slot[OF assms(1) True] by (simp add: slot_ok_def word_unat_eq_iff c_conv unat_of_nat)
    then have p: "(ucast ?id \<noteq> peer_id (mail s (slot_off ?G ?n))) = False" by simp
    obtain m where m: "fresh_slot ?G ?id (uts_nodename env) (devfn P) = Some m"
      using fresh_slot_ok[OF fee_inv_globals[OF assms(1)], of ?id ?n] by (auto simp: word_unat_eq_iff c_conv unat_of_nat)
    have B: "?B\<lparr>my_slot := ?slot\<rparr> = new_adapter env pd P ?G" by (simp add: mapped_adapter_def new_adapter_def)
    define N where "N = new_adapter env pd P ?G"
    have N: "my_id N = ?id" "globals N = iomap2 env" by (simp_all add: N_def new_adapter_def)
    have rw: "rd_slot (built ?ap N pd P ?l s) N ?slot = Some (mail s (slot_off ?G ?n))"
      "wr_slot N ?slot m (built ?ap N pd P ?l s) = (built ?ap N pd P ?l s)\<lparr>mail := (mail s)(slot_off ?G ?n := m)\<rparr>"
      using nn N by (simp_all add: rd_slot_def wr_slot_def)
    have "FEE_adapter_create env pd s = Some (Inr ?ap, (built ?ap N pd P ?l s)\<lparr>mail := (mail s)(slot_off ?G ?n := m)\<rparr>)"
      unfolding create if_P[OF True] B N_def[symmetric] if_not_P[OF nn] rw bind.simps(2) N(1) p if_False m by (rule refl)
    then show ?thesis using True m l unfolding N_def by (intro exI[of _ ?l]) (simp add: Let_def)
  next
    case False
    let ?B2 = "?B\<lparr>my_slot := NULL\<rparr>"
    have io: "iomap0 env \<noteq> NULL" "iomap2 env \<noteq> NULL" using assms(7) by (auto simp: map_error_def split: if_splits)
    have "FEE_adapter_destroy ?ap (built ?ap ?B2 pd P ?l s) =
        Some (s\<lparr>led := release (Kmem ?ap) (unmap_led pd ?B2 ?l)\<rparr>)"
      using destroy_built[OF assms(4,3), of ?B2 P ?l s] gone_fresh[OF assms(2,5,6)]
      by (simp add: mapped_adapter_def zero_adapter_def)
    moreover have "balanced (led s) (release (Kmem ?ap) (unmap_led pd ?B2 ?l))"
      using unmap_led_mapped[of ?l "mset (held (led s))" ?ap pd ?B2] l io
      by (simp add: balanced_def adapter_res_def new_adapter_def mapped_adapter_def)
    ultimately show ?thesis
      using False l by (intro exI[of _ ?l]) (auto simp: create Let_def simp del: One_nat_def)
  qed
qed

lemma adapter_created:
  fixes s env pd P
  defines "A \<equiv> new_adapter env pd P (glob s)"
  assumes "fee_inv s" "pdevs s pd = Some P" "pd \<noteq> NULL" "drvdata P = NULL"
    and "kz_adapter env \<noteq> NULL" "adapters s (kz_adapter env) = None" "map_error env = 0"
    and "mapped_ok (iomap2 env) (glob s)" "valid_id (glob s) (unat (ucast (IVPosition P) :: uint16))"
  shows "\<exists>s'. FEE_adapter_create env pd s = Some (Inr (kz_adapter env), s') \<and> fee_inv s' \<and>
    adapters s' = (adapters s)(kz_adapter env \<mapsto> A) \<and> glob s' = glob s \<and>
    FEE_adapter_list s' = FEE_adapter_list s \<and>
    pdevs s' = (pdevs s)(pd \<mapsto> P\<lparr>drvdata := kz_adapter env\<rparr>) \<and>
    outbox s' = (outbox s)(unat (my_id A) := None) \<and> cstr (cclass (my_mail s' A)) = DEFAULT_CCLASS \<and>
    bad (led s') = bad (led s) \<and>
    mset (held (led s')) = mset (held (led s)) + adapter_res (kz_adapter env) pd A \<and>
    (\<exists>s''. FEE_adapter_destroy (kz_adapter env) s' = Some s'' \<and> balanced (led s) (led s'') \<and>
       adapters s'' = adapters s \<and> pdevs s'' = pdevs s)"
proof -
  let ?ap = "kz_adapter env" and ?A = A
  have A_simps: "globals A = iomap2 env" "regs A = iomap0 env" "my_id A = ucast (IVPosition P)" "pdev A = pd"
    "IRQ_private A = None" "outgoing A = None" "ad_core A = NULL" by (simp_all add: A_def)
  let ?n = "unat (ucast (IVPosition P) :: uint16)"
  note G = fee_inv_globals[OF assms(2)]
  have io: "iomap0 env \<noteq> NULL" "iomap2 env \<noteq> NULL"
    using assms(8) by (auto simp: map_error_def split: if_splits)
  from create_after_map[OF assms(2-4,6,5,7-9), folded A_def] assms(10) obtain l m where
    l: "mset (held l) = mset (held (led s)) + adapter_res ?ap pd ?A" "bad l = bad (led s)"
    and m: "fresh_slot (glob s) (ucast (IVPosition P)) (uts_nodename env) (devfn P) = Some m"
    and c: "FEE_adapter_create env pd s = Some (Inr ?ap,
         (built ?ap ?A pd P l s)\<lparr>mail := (mail s)(slot_off (glob s) ?n := m)\<rparr>)"
    by (auto simp: Let_def)
  let ?t = "s\<lparr>mail := (mail s)(slot_off (glob s) ?n := m)\<rparr>"
  let ?s' = "(built ?ap ?A pd P l s)\<lparr>mail := (mail s)(slot_off (glob s) ?n := m)\<rparr>"
  have s': "?s' = built ?ap ?A pd P l ?t" by (rule fee_state.equality) (simp_all add: built_def)
  have mok: "slot_ok (glob s) ?n m" "buflen m = 0" "cstr (cclass m) = DEFAULT_CCLASS"
    using fresh_slot_ok[OF G, of "ucast (IVPosition P)" ?n "uts_nodename env" "devfn P"] m
    by (auto simp: word_unat_eq_iff c_conv unat_of_nat)
  have "fee_inv ?t" by (rule fee_inv_mail_upd[OF assms(2,10) mok(1)])
  then have "fee_inv (wr_adapter ?ap ?A ?t)"
    using new_adapter_ok[OF G assms(9) io(1) assms(10), of pd, folded A_def]
    by (intro fee_inv_adapter_upd[OF _ assms(6)]) simp_all
  then have inv: "fee_inv ?s'" unfolding s' by (simp add: fee_inv_def wr_adapter_def)
  have "outbox ?s' = outbox ?t" unfolding s' by (simp add: outbox_def fun_eq_iff)
  also have "\<dots> = (outbox s)(?n := None)" using outbox_upd[OF G assms(10)] mok(2) by (simp add: slot_view_def)
  finally have out: "outbox ?s' = (outbox s)(?n := None)" .
  have "cstr (cclass (my_mail ?s' ?A)) = DEFAULT_CCLASS" using mok(3) by (simp add: my_mail_def A_simps)
  moreover have d: "FEE_adapter_destroy ?ap ?s' = Some (?t\<lparr>led := release (Kmem ?ap) (unmap_led pd ?A l)\<rparr>)"
    unfolding s' using destroy_built[OF assms(6,4), of ?A P l ?t] gone_fresh[of ?t pd P ?ap] assms(3,5,7)
    by (simp add: A_simps)
  moreover have "balanced (led s) (release (Kmem ?ap) (unmap_led pd ?A l))"
    using unmap_led_mapped[of l "mset (held (led s))" ?ap pd ?A] l io by (simp add: balanced_def A_simps)
  ultimately show ?thesis
    using c inv out l by (intro exI[of _ ?s']) (simp add: A_simps built_def)
qed

section \<open>Properties\<close>

text \<open>C17: creating an adapter for a device whose id is a client's builds an adapter that satisfies the
  invariant, empties that client's mailslot and no other, labels it with the default class, points the
  device back at the adapter, and holds exactly the adapter's memory, the PCI regions and the two
  mappings; destroying it again gives all of this back, without a bad release.\<close>

theorem adapter_create_result:
  assumes "fee_inv s" "pdevs s pd = Some P" "pd \<noteq> NULL" "drvdata P = NULL"
    and "kz_adapter env \<noteq> NULL" "adapters s (kz_adapter env) = None" "map_error env = 0"
    and "mapped_ok (iomap2 env) (glob s)" "valid_id (glob s) (unat (ucast (IVPosition P) :: uint16))"
  shows "\<exists>A s'. FEE_adapter_create env pd s = Some (Inr (kz_adapter env), s') \<and> fee_inv s' \<and>
    adapters s' = (adapters s)(kz_adapter env \<mapsto> A) \<and> pdev A = pd \<and> my_id A = ucast (IVPosition P) \<and>
    ad_slot A = int (drop_bit 3 (devfn P)) \<and> incoming_slot A = NULL \<and> \<not> incoming_slot_lock A \<and>
    pdevs s' = (pdevs s)(pd \<mapsto> P\<lparr>drvdata := kz_adapter env\<rparr>) \<and>
    outbox s' = (outbox s)(unat (my_id A) := None) \<and> cstr (cclass (my_mail s' A)) = DEFAULT_CCLASS \<and>
    bad (led s') = bad (led s) \<and>
    mset (held (led s')) = mset (held (led s)) + adapter_res (kz_adapter env) pd A \<and>
    (\<exists>s''. FEE_adapter_destroy (kz_adapter env) s' = Some s'' \<and> balanced (led s) (led s'') \<and>
       adapters s'' = adapters s \<and> pdevs s'' = pdevs s)"
  using adapter_created[OF assms] by (intro exI[of _ "new_adapter env pd P (glob s)"]) auto


text \<open>A device that has not been probed yet, in a machine with one adapter already.\<close>

definition adapter_env0 :: adapter_env where
  "adapter_env0 = \<lparr>kz_adapter = 0xB000, r_request_regions = 0, iomap0 = 0x70000, iomap2 = 0x80000,
     uts_nodename = ''node01''\<rparr>"

definition new_pdev :: pci_dev where
  "new_pdev = example_pdev\<lparr>drvdata := NULL, devfn := 40, bar1_name := ''0000:00:05.0'', pci_slot := Some 5,
     IVPosition := 7\<rparr>"

definition hotplug_state :: fee_state where
  "hotplug_state = example_state\<lparr>pdevs := [0x100 \<mapsto> example_pdev, 0x200 \<mapsto> new_pdev]\<rparr>"

lemma hotplug_state_facts:
  "fee_inv hotplug_state" "pdevs hotplug_state 0x200 = Some new_pdev" "(0x200 :: addr) \<noteq> NULL"
  "drvdata new_pdev = NULL" "kz_adapter adapter_env0 \<noteq> NULL"
  "adapters hotplug_state (kz_adapter adapter_env0) = None"
  "glob hotplug_state = example_globals" "\<not> holds (PciRegions 0x200) (led hotplug_state)"
  using example_state_inv
  by (simp_all add: fee_inv_def hotplug_state_def new_pdev_def adapter_env0_def example_state_def)

lemma adapter_env0_facts:
  "map_error adapter_env0 = 0" "mapped_ok (iomap2 adapter_env0) example_globals"
  "valid_id example_globals (unat (ucast (IVPosition new_pdev) :: uint16))"
  by (simp_all add: adapter_env0_def map_error_def mapped_ok_def example_globals_def last_id_def new_pdev_def
      valid_id_def)

theorem adapter_create_result_witness:
  "\<exists>A s'. FEE_adapter_create adapter_env0 0x200 hotplug_state = Some (Inr 0xB000, s') \<and> fee_inv s' \<and>
     adapters s' = (adapters hotplug_state)(0xB000 \<mapsto> A) \<and> my_id A = 7 \<and>
     (\<exists>s''. FEE_adapter_destroy 0xB000 s' = Some s'' \<and> balanced (led hotplug_state) (led s''))"
proof -
  have k: "kz_adapter adapter_env0 = 0xB000" "ucast (IVPosition new_pdev) = (7 :: uint16)"
    by (simp_all add: adapter_env0_def new_pdev_def)
  from adapter_create_result[OF hotplug_state_facts(1-6), unfolded hotplug_state_facts(7), OF adapter_env0_facts]
  show ?thesis by (auto simp: k)
qed


end
