(* ===== verification/Fee_PCI.thy ===== *)
theory Fee_PCI
  imports Fee_Adapter
begin

text \<open>
  The PCI driver, \<open>shim_bridge/fee_pci.c\<close>: probing a device (\<open>FEE_init_one\<close>) and removing it
  (\<open>FEE_remove_one\<close>), with the list of adapters they maintain. The lemmas show that a probe followed by a
  removal gives everything back and leaves the list as it was, and that a probe whose first message
  cannot be sent leaves a freed adapter on the list.
\<close>

section \<open>Operations\<close>

text \<open>The macro \<open>UPDATE_SWITCH\<close> of \<open>fee.h\<close>.\<close>

definition UPDATE_SWITCH :: "wait_env \<Rightarrow> addr \<Rightarrow> fee_state \<Rightarrow> (int \<times> fee_state) option" where
  "UPDATE_SWITCH env ap s = do {
     A \<leftarrow> adapters s ap;
     G \<leftarrow> rd_globals s A;
     FEE_create_outgoing env (s32 (uint (server_id G))) GENZ_FEE_SID_CID_IS_PEER_ID (''dump'' @ [NUL]) 4 ap s
   }"

text \<open>The kernel's answers during a probe: enabling the device, the environments of the two setups, the
  renaming of the slot, and the world during the two sends.\<close>

record probe_env =
  r_enable_device :: int
  p_adapter :: adapter_env
  p_msix :: msix_env
  r_rename :: int
  p_send1 :: wait_env
  p_send2 :: wait_env

definition FEE_NAME :: string where "FEE_NAME = ''FEE''"
definition get_peer_attributes :: string where "get_peer_attributes = ''Link CTL Peer-Attribute''"

text \<open>The search of the list for a card at the same place.\<close>

fun on_list :: "string \<Rightarrow> addr list \<Rightarrow> fee_state \<Rightarrow> bool option" where
  "on_list loc [] s = Some False"
| "on_list loc (cur # rest) s = do {
     A \<leftarrow> adapters s cur;
     P \<leftarrow> pdevs s (pdev A);
     if STREQ loc (bar1_name P) then Some True else on_list loc rest s
   }"

text \<open>\<open>kobject_rename\<close> of the device's slot, with its result \<open>r\<close>.\<close>

definition rename_slot :: "int \<Rightarrow> addr \<Rightarrow> string \<Rightarrow> fee_state \<Rightarrow> fee_state option" where
  "rename_slot r pd new s = do {
     P \<leftarrow> pdevs s pd;
     Some (if r = 0 then s\<lparr>pdevs := (pdevs s)(pd \<mapsto> P\<lparr>pci_slot_name := new\<rparr>)\<rparr> else s)
   }"

definition err_pci_disable_device :: "addr \<Rightarrow> addr \<Rightarrow> int \<Rightarrow> fee_state \<Rightarrow> (int \<times> fee_state) option" where
  "err_pci_disable_device pd ap ret s = do {
     s1 \<leftarrow> FEE_adapter_destroy ap (k_release (PciEnabled pd) s);
     Some (ret, s1)
   }"

definition err_MSIX_teardown :: "addr \<Rightarrow> addr \<Rightarrow> int \<Rightarrow> fee_state \<Rightarrow> (int \<times> fee_state) option" where
  "err_MSIX_teardown pd ap ret s = do {
     s1 \<leftarrow> FEE_ISR_teardown pd s;
     err_pci_disable_device pd ap ret s1
   }"

text \<open>The end of a probe: the question to the server, and the dump if it went out.\<close>

definition init_announce :: "probe_env \<Rightarrow> addr \<Rightarrow> addr \<Rightarrow> fee_state \<Rightarrow> (int \<times> fee_state) option" where
  "init_announce env pd ap s = do {
     A \<leftarrow> adapters s ap;
     G \<leftarrow> rd_globals s A;
     (ret, s1) \<leftarrow> FEE_create_outgoing (p_send1 env) (s32 (uint (server_id G)))
       GENZ_FEE_SID_CID_IS_PEER_ID (get_peer_attributes @ [NUL])
       (of_nat (length get_peer_attributes)) ap s;
     let ret = (if ret > 0 then if ret = int (length get_peer_attributes) then 0 else err EIO else ret);
     if ret = 0 then do {
       (_, s2) \<leftarrow> UPDATE_SWITCH (p_send2 env) ap s1;
       Some (ret, s2)
     }
     else err_MSIX_teardown pd ap ret s1
   }"

text \<open>The middle: the search of the list, the slot's new name, and the new list.\<close>

definition init_list :: "probe_env \<Rightarrow> addr \<Rightarrow> addr \<Rightarrow> fee_state \<Rightarrow> (int \<times> fee_state) option" where
  "init_list env pd ap s = do {
     P \<leftarrow> pdevs s pd;
     dup \<leftarrow> on_list (bar1_name P) (FEE_adapter_list s) s;
     if dup then err_MSIX_teardown pd ap (err EALREADY) s
     else do {
       s1 \<leftarrow> (case pci_slot P of
                None \<Rightarrow> Some s
              | Some num \<Rightarrow> do {
                  newname \<leftarrow> sprintf 32 (format [Arg (FS FEE_NAME), Lit ''.'', Arg (FX2 num)]);
                  rename_slot (r_rename env) pd (cstr newname) s
                });
       init_announce env pd ap (s1\<lparr>FEE_adapter_list := FEE_adapter_list s1 @ [ap]\<rparr>)
     }
   }"

definition FEE_init_one :: "probe_env \<Rightarrow> addr \<Rightarrow> fee_state \<Rightarrow> (int \<times> fee_state) option" where
  "FEE_init_one env pd s = do {
     P \<leftarrow> pdevs s pd;
     if drvdata P \<noteq> NULL then Some (err EALREADY, s)
     else if r_enable_device env < 0 then Some (r_enable_device env, s)
     else do {
       let s1 = k_acquire (PciEnabled pd) s;
       if revision P \<noteq> 1 \<or> msix_cap P = 0 \<or> bar1_start P = 0
       then err_pci_disable_device pd NULL (err ENODEV) s1
       else do {
         (r, s2) \<leftarrow> FEE_adapter_create (p_adapter env) pd s1;
         case r of
           Inl e \<Rightarrow> err_pci_disable_device pd NULL e s2
         | Inr ap \<Rightarrow> do {
             (ret, s3) \<leftarrow> FEE_ISR_setup (p_msix env) pd s2;
             if ret \<noteq> 0 then err_pci_disable_device pd ap ret s3
             else init_list env pd ap s3
           }
       }
     }
   }"

text \<open>The loop of \<open>FEE_remove_one\<close> over the list: the adapters that stay.\<close>

fun unlist :: "string \<Rightarrow> addr list \<Rightarrow> fee_state \<Rightarrow> addr list option" where
  "unlist loc [] s = Some []"
| "unlist loc (cur # rest) s = do {
     A \<leftarrow> adapters s cur;
     P \<leftarrow> pdevs s (pdev A);
     rest' \<leftarrow> unlist loc rest s;
     Some (if STREQ (bar1_name P) loc then rest' else cur # rest')
   }"

definition FEE_remove_one :: "int \<Rightarrow> wait_env \<Rightarrow> addr \<Rightarrow> fee_state \<Rightarrow> fee_state option" where
  "FEE_remove_one r_ren env pd s = do {
     P \<leftarrow> pdevs s pd;
     let ap = drvdata P;
     if ap = NULL then Some s
     else do {
       num \<leftarrow> pci_slot P;
       oldname \<leftarrow> sprintf 8 (show_nat num);
       s1 \<leftarrow> rename_slot r_ren pd (cstr oldname) s;
       A \<leftarrow> adapters s1 ap;
       m \<leftarrow> rd_slot s1 A (my_slot A);
       cc \<leftarrow> strcpy (cclass m) ''Driverless QEMU'';
       (_, s2) \<leftarrow> UPDATE_SWITCH env ap (wr_slot A (my_slot A) (m\<lparr>cclass := cc\<rparr>) s1);
       s3 \<leftarrow> FEE_ISR_teardown pd s2;
       let s4 = k_release (PciEnabled pd) s3;
       l \<leftarrow> unlist (bar1_name P) (FEE_adapter_list s4) s4;
       FEE_adapter_destroy ap (s4\<lparr>FEE_adapter_list := l\<rparr>)
     }
   }"

text \<open>Loading and unloading the module. \<open>pci_register_driver\<close> and \<open>pci_unregister_driver\<close> belong to the
  PCI core: a successful registration probes the devices it knows one after the other, whatever the
  probes return, and unregistering removes them.\<close>

fun probe_all :: "(probe_env \<times> addr) list \<Rightarrow> fee_state \<Rightarrow> fee_state option" where
  "probe_all [] s = Some s"
| "probe_all ((env, pd) # ds) s = do { (_, s1) \<leftarrow> FEE_init_one env pd s; probe_all ds s1 }"

fun remove_all :: "(int \<times> wait_env \<times> addr) list \<Rightarrow> fee_state \<Rightarrow> fee_state option" where
  "remove_all [] s = Some s"
| "remove_all ((r, env, pd) # ds) s = do { s1 \<leftarrow> FEE_remove_one r env pd s; remove_all ds s1 }"

definition FEE_init :: "int \<Rightarrow> (probe_env \<times> addr) list \<Rightarrow> fee_state \<Rightarrow> (int \<times> fee_state) option" where
  "FEE_init r_register ds s =
     (if r_register \<noteq> 0 then Some (r_register, s)
      else do { s1 \<leftarrow> probe_all ds s; Some (r_register, s1) })"

definition FEE_exit :: "(int \<times> wait_env \<times> addr) list \<Rightarrow> fee_state \<Rightarrow> fee_state option" where
  "FEE_exit ds s = remove_all ds s"

section \<open>Lemmas: what a send can change\<close>

text \<open>Peers that only use their mailboxes while the sender sleeps.\<close>

definition mail_only :: "wait_env \<Rightarrow> bool" where
  "mail_only env \<longleftrightarrow> (\<forall>k d s. \<exists>m. sleep env k d s = s\<lparr>mail := m\<rparr>)"

definition mail_change :: "fee_state \<Rightarrow> fee_state \<Rightarrow> bool" where
  "mail_change s s' \<longleftrightarrow> (\<exists>m d l. s' = s\<lparr>mail := m, doorbells := d, longest := l\<rparr>)"

lemma mail_change_refl [simp]: "mail_change s s"
  unfolding mail_change_def
  by (rule exI[of _ "mail s"], rule exI[of _ "doorbells s"], rule exI[of _ "longest s"]) simp

lemma mail_change_trans:
  assumes "mail_change s t" "mail_change t u"
  shows "mail_change s u"
proof -
  from assms obtain m d l m' d' l' where "t = s\<lparr>mail := m, doorbells := d, longest := l\<rparr>"
    "u = t\<lparr>mail := m', doorbells := d', longest := l'\<rparr>" unfolding mail_change_def by blast
  then have "u = s\<lparr>mail := m', doorbells := d', longest := l'\<rparr>" by simp
  then show ?thesis unfolding mail_change_def by blast
qed

lemma mail_changeD:
  assumes "mail_change s s'"
  shows "adapters s' = adapters s" "pdevs s' = pdevs s" "led s' = led s" "glob s' = glob s"
    "FEE_adapter_list s' = FEE_adapter_list s" "cores s' = cores s" "chrdevs s' = chrdevs s"
    "genz_bus_list s' = genz_bus_list s" "bridge_minor_bitmap s' = bridge_minor_bitmap s"
  using assms by (auto simp: mail_change_def)

text \<open>A send among such peers is itself such a step.\<close>

interpretation quiet: world_relation mail_only mail_change
proof unfold_locales
  show "mail_only env \<Longrightarrow> mail_change s (sleep env k d s)" for env s k d
  proof -
    assume "mail_only env"
    then obtain m where "sleep env k d s = s\<lparr>mail := m\<rparr>" unfolding mail_only_def by blast
    then have "sleep env k d s = s\<lparr>mail := m, doorbells := doorbells s, longest := longest s\<rparr>"
      by (intro fee_state.equality) simp_all
    then show ?thesis unfolding mail_change_def by blast
  qed
  show "mail_change s (s\<lparr>mail := m, doorbells := b, longest := l\<rparr>)" for s m b l
    by (auto simp: mail_change_def)
qed (rule mail_change_refl, rule mail_change_trans)

lemmas create_outgoing_mail_only = quiet.create_rel

lemma UPDATE_SWITCH_total:
  assumes "fee_inv s" "adapters s ap = Some A" "benign env ap" "clock_runs env" "mail_only env"
  shows "\<exists>r s'. UPDATE_SWITCH env ap s = Some (r, s') \<and> fee_inv s' \<and> mail_change s s'"
proof -
  have "rd_globals s A = Some (glob s)"
    using adapter_ok_globals[OF fee_inv_adapter[OF assms(1,2)]] by (simp add: rd_globals_def)
  moreover obtain r s' where c: "FEE_create_outgoing env (s32 (uint (server_id (glob s))))
      GENZ_FEE_SID_CID_IS_PEER_ID (''dump'' @ [NUL]) 4 ap s = Some (r, s')" "fee_inv s'"
    using create_outgoing_total[OF assms(1-4), of 4 "''dump'' @ [NUL]"] by fastforce
  ultimately show ?thesis using create_outgoing_mail_only[OF c(1) assms(5,1,2)] assms(2) by (simp add: UPDATE_SWITCH_def)
qed

section \<open>Lemmas: a successful probe\<close>

abbreviation probe_ap :: "probe_env \<Rightarrow> addr" where "probe_ap env \<equiv> kz_adapter (p_adapter env)"

text \<open>What a probe relies on: the invariant, an allocator that returns new memory, a mapping that does not
  wrap around, and peers that keep to their mailboxes while the driver waits.\<close>

definition probe_ok :: "probe_env \<Rightarrow> addr \<Rightarrow> pci_dev \<Rightarrow> fee_state \<Rightarrow> bool" where
  "probe_ok env pd P s \<longleftrightarrow> fee_inv s \<and> pdevs s pd = Some P \<and> pd \<noteq> NULL \<and> adapters s (probe_ap env) = None \<and>
     (iomap2 (p_adapter env) \<noteq> NULL \<longrightarrow> mapped_ok (iomap2 (p_adapter env)) (glob s)) \<and>
     int32_range (r_vec_count (p_msix env)) \<and>
     (\<forall>w \<in> {p_send1 env, p_send2 env}. benign w (probe_ap env) \<and> clock_runs w \<and> mail_only w)"

lemma err_disable_NULL:
  "err_pci_disable_device pd NULL ret s = Some (ret, k_release (PciEnabled pd) s)"
  by (simp add: err_pci_disable_device_def FEE_adapter_destroy_def)

lemma err_disable_ret: "err_pci_disable_device pd ap ret s = Some (r, s') \<Longrightarrow> r = ret"
  by (auto simp: err_pci_disable_device_def)

lemma err_teardown_ret: "err_MSIX_teardown pd ap ret s = Some (r, s') \<Longrightarrow> r = ret"
  by (auto simp: err_MSIX_teardown_def dest: err_disable_ret)

lemma create_NULL: "kz_adapter env = NULL \<Longrightarrow> FEE_adapter_create env pd s = Some (Inl (err ENOMEM), s)"
  by (simp add: FEE_adapter_create_def)

lemma init_one_created:
  assumes "probe_ok env pd P s" "FEE_init_one env pd s = Some (0, s1)"
  defines "A \<equiv> new_adapter (p_adapter env) pd P (glob s)"
  shows "drvdata P = NULL \<and> probe_ap env \<noteq> NULL \<and> map_error (p_adapter env) = 0 \<and>
    (\<exists>s2 s3. fee_inv s2 \<and> adapters s2 = (adapters s)(probe_ap env \<mapsto> A) \<and> glob s2 = glob s \<and>
      FEE_adapter_list s2 = FEE_adapter_list s \<and>
      pdevs s2 = (pdevs s)(pd \<mapsto> P\<lparr>drvdata := probe_ap env\<rparr>) \<and> bad (led s2) = bad (led s) \<and>
      mset (held (led s2)) = mset (held (led s)) + {#PciEnabled pd#} + adapter_res (probe_ap env) pd A \<and>
      FEE_ISR_setup (p_msix env) pd s2 = Some (0, s3) \<and> init_list env pd (probe_ap env) s3 = Some (0, s1))"
proof -
  let ?s = "k_acquire (PciEnabled pd) s" and ?e = "p_adapter env" and ?ap = "probe_ap env"
  let ?n = "unat (ucast (IVPosition P) :: uint16)"
  note ok = assms(1)[unfolded probe_ok_def]
  have P: "pdevs ?s pd = Some P" "pd \<noteq> NULL" "adapters ?s ?ap = None" "fee_inv ?s" "glob ?s = glob s"
    using ok by simp_all
  from assms(2) ok have d: "drvdata P = NULL"
    by (auto simp: FEE_init_one_def split: if_splits)
  from assms(2) ok d obtain r s2 where c: "FEE_adapter_create ?e pd ?s = Some (r, s2)"
    and rest: "(case r of Inl e \<Rightarrow> err_pci_disable_device pd NULL e s2
      | Inr ap \<Rightarrow> do { (ret, s3) \<leftarrow> FEE_ISR_setup (p_msix env) pd s2;
          if ret \<noteq> 0 then err_pci_disable_device pd ap ret s3 else init_list env pd ap s3 }) = Some (0, s1)"
    by (auto simp: FEE_init_one_def err_disable_NULL Let_def split: if_splits)
  have r: "r \<noteq> Inl e" if "e \<noteq> 0" for e using rest that by (auto simp: err_disable_NULL)
  have ap: "?ap \<noteq> NULL" using c r[of "err ENOMEM"] create_NULL by fastforce
  have me: "map_error ?e = 0"
    using create_map_fails[OF P(1,2) ap d P(3)] c r[of "map_error ?e"] by fastforce
  have map: "mapped_ok (iomap2 ?e) (glob ?s)" using ok me by (auto simp: map_error_def split: if_splits)
  have v: "valid_id (glob ?s) ?n"
  proof (rule ccontr)
    assume "\<not> valid_id (glob ?s) ?n"
    with create_after_map[OF P(4,1,2) ap d P(3) me map] obtain l where
      "FEE_adapter_create ?e pd ?s = Some (Inl (err EINVAL), ?s\<lparr>led := l\<rparr>)" by (auto simp: Let_def)
    with c r[of "err EINVAL"] show False by simp
  qed
  from adapter_created[OF P(4,1,2) d ap P(3) me map v, unfolded P(5), folded A_def] c
  have s2: "r = Inr ?ap" "fee_inv s2" "adapters s2 = (adapters s)(?ap \<mapsto> A)" "glob s2 = glob s"
      "FEE_adapter_list s2 = FEE_adapter_list s" "pdevs s2 = (pdevs s)(pd \<mapsto> P\<lparr>drvdata := ?ap\<rparr>)"
      "bad (led s2) = bad (led s)"
      "mset (held (led s2)) = mset (held (led s)) + {#PciEnabled pd#} + adapter_res ?ap pd A"
    by (auto simp: ledger_simps)
  from rest s2(1) obtain ret s3 where i: "FEE_ISR_setup (p_msix env) pd s2 = Some (ret, s3)"
    "(if ret \<noteq> 0 then err_pci_disable_device pd ?ap ret s3 else init_list env pd ?ap s3) = Some (0, s1)"
    by auto
  then have "ret = 0" using err_disable_ret[of pd ?ap ret s3 0 s1] by (auto split: if_splits)
  with i d ap me s2 show ?thesis by auto
qed

lemma with_irqs_inv:
  assumes "fee_inv s" "adapters s ap = Some A"
  shows "fee_inv (with_irqs ap A x l s)"
proof -
  have "fee_inv (wr_adapter ap (A\<lparr>IRQ_private := x\<rparr>) s)"
    using assms by (intro fee_inv_adapter_upd) (auto simp: fee_inv_def adapter_ok_def)
  then show ?thesis by (simp add: fee_inv_def wr_adapter_def with_irqs_def)
qed

lemma on_list_False:
  "on_list loc xs s = Some False \<longleftrightarrow>
     (\<forall>cur \<in> set xs. \<exists>A P. adapters s cur = Some A \<and> pdevs s (pdev A) = Some P \<and> \<not> STREQ loc (bar1_name P))"
  by (induction xs) auto

text \<open>The part of a state that \<open>fee_inv\<close> is about.\<close>

lemma fee_inv_same:
  assumes "fee_inv s" "glob t = glob s" "mail t = mail s" "adapters t = adapters s"
  shows "fee_inv t"
  using assms by (simp add: fee_inv_def)

lemma init_announce_ok:
  assumes "fee_inv s" "adapters s ap = Some A" "\<forall>w \<in> {p_send1 env, p_send2 env}. benign w ap \<and> clock_runs w \<and> mail_only w"
    and "init_announce env pd ap s = Some (0, s')"
  shows "fee_inv s' \<and> mail_change s s'"
proof -
  let ?len = "of_nat (length get_peer_attributes) :: uint64"
  have g: "rd_globals s A = Some (glob s)"
    using adapter_ok_globals[OF fee_inv_adapter[OF assms(1,2)]] by (simp add: rd_globals_def)
  have len: "unat ?len \<le> length (get_peer_attributes @ [NUL])" by (simp add: get_peer_attributes_def)
  obtain ret s1 where c: "FEE_create_outgoing (p_send1 env) (s32 (uint (server_id (glob s))))
      GENZ_FEE_SID_CID_IS_PEER_ID (get_peer_attributes @ [NUL]) ?len ap s = Some (ret, s1)" "fee_inv s1"
    using create_outgoing_total[OF assms(1,2) _ _ len] assms(3) by blast
  then have s1: "mail_change s s1" using create_outgoing_mail_only[OF c(1) _ assms(1,2)] assms(3) by blast
  have "adapters s1 ap = Some A" using mail_changeD(1)[OF s1] assms(2) by simp
  then obtain r2 s2 where u: "UPDATE_SWITCH (p_send2 env) ap s1 = Some (r2, s2)" "fee_inv s2" "mail_change s1 s2"
    using UPDATE_SWITCH_total[OF c(2)] assms(3) by blast
  define ret' where "ret' = (if ret > 0 then if ret = int (length get_peer_attributes) then 0 else err EIO else ret)"
  have eq: "init_announce env pd ap s = (if ret' = 0 then Some (0, s2) else err_MSIX_teardown pd ap ret' s1)"
    by (simp only: init_announce_def assms(2) g c(1) u(1) bind.simps(2) prod.case Let_def ret'_def[symmetric] cong: if_cong)
  have "s' = s2"
  proof (cases "ret' = 0")
    case True
    then show ?thesis using eq assms(4) by (simp only: if_True option.inject prod.inject simp_thms)
  next
    case False
    then have "err_MSIX_teardown pd ap ret' s1 = Some (0, s')" using eq assms(4) by (simp only: if_False)
    then show ?thesis using err_teardown_ret False by blast
  qed
  moreover have "mail_change s s2" by (rule mail_change_trans[OF s1 u(3)])
  ultimately show ?thesis using u(2) by simp
qed

text \<open>What a successful probe leaves.\<close>

definition probed :: "probe_env \<Rightarrow> addr \<Rightarrow> pci_dev \<Rightarrow> fee_state \<Rightarrow> fee_state \<Rightarrow> bool" where
  "probed env pd P s s1 \<longleftrightarrow> (let ap = probe_ap env; A = new_adapter (p_adapter env) pd P (glob s);
      es = irq_table (p_msix env) (unat (nEvents (glob s))); ep = kz_entries (p_msix env) in
     fee_inv s1 \<and> glob s1 = glob s \<and> FEE_adapter_list s1 = FEE_adapter_list s @ [ap] \<and>
     ep \<noteq> NULL \<and> adapters s1 = (adapters s)(ap \<mapsto> A\<lparr>IRQ_private := Some (ep, es)\<rparr>) \<and>
     (\<exists>nm. pdevs s1 = (pdevs s)(pd \<mapsto> P\<lparr>drvdata := ap, pci_slot_name := nm\<rparr>)) \<and>
     (\<forall>cur \<in> set (FEE_adapter_list s). \<exists>C Q. cur \<noteq> ap \<and> pdev C \<noteq> pd \<and> adapters s cur = Some C \<and>
        pdevs s (pdev C) = Some Q \<and> \<not> STREQ (bar1_name Q) (bar1_name P)) \<and>
     bad (led s1) = bad (led s) \<and>
     mset (held (led s1)) = mset (held (led s)) + {#PciEnabled pd#} + adapter_res ap pd A +
       {#Kmem ep, IrqVectors pd#} + irq_res es)"

lemma renamed:
  assumes "(case pci_slot Q of None \<Rightarrow> Some s
      | Some num \<Rightarrow> do { newname \<leftarrow> sprintf 32 (format [Arg (FS FEE_NAME), Lit ''.'', Arg (FX2 num)]);
          rename_slot r pd (cstr newname) s }) = Some s1"
    and "pdevs s pd = Some Q"
  shows "\<exists>nm. s1 = s\<lparr>pdevs := (pdevs s)(pd \<mapsto> Q\<lparr>pci_slot_name := nm\<rparr>)\<rparr>"
proof -
  have "s1 = s \<or> (\<exists>nm. s1 = s\<lparr>pdevs := (pdevs s)(pd \<mapsto> Q\<lparr>pci_slot_name := nm\<rparr>)\<rparr>)"
    using assms by (auto simp: rename_slot_def split: option.splits if_splits)
  moreover have "s = s\<lparr>pdevs := (pdevs s)(pd \<mapsto> Q\<lparr>pci_slot_name := pci_slot_name Q\<rparr>)\<rparr>"
    using assms(2) by (simp add: map_upd_triv)
  ultimately show ?thesis by blast
qed

text \<open>The end of a successful probe: no adapter of that location was on the list, the new one is appended.\<close>

lemma init_list_listed:
  assumes "init_list env pd ap s = Some (0, s1)" "fee_inv s" "pdevs s pd = Some Q" "adapters s ap = Some A"
    and "\<forall>w \<in> {p_send1 env, p_send2 env}. benign w ap \<and> clock_runs w \<and> mail_only w"
  obtains nm where "on_list (bar1_name Q) (FEE_adapter_list s) s = Some False" "fee_inv s1" "adapters s1 = adapters s"
    "glob s1 = glob s" "led s1 = led s" "FEE_adapter_list s1 = FEE_adapter_list s @ [ap]"
    "pdevs s1 = (pdevs s)(pd \<mapsto> Q\<lparr>pci_slot_name := nm\<rparr>)"
proof -
  let ?name = "case pci_slot Q of None \<Rightarrow> Some s
      | Some num \<Rightarrow> do { newname \<leftarrow> sprintf 32 (format [Arg (FS FEE_NAME), Lit ''.'', Arg (FX2 num)]);
          rename_slot (r_rename env) pd (cstr newname) s }"
  from assms(1) obtain dup where dup: "on_list (bar1_name Q) (FEE_adapter_list s) s = Some dup"
    and rest: "(if dup then err_MSIX_teardown pd ap (err EALREADY) s
      else do { s4 \<leftarrow> ?name; init_announce env pd ap (s4\<lparr>FEE_adapter_list := FEE_adapter_list s4 @ [ap]\<rparr>) }) = Some (0, s1)"
    by (auto simp: init_list_def assms(3))
  have "\<not> dup" using rest err_teardown_ret[of pd ap "err EALREADY" s 0 s1] by (auto split: if_splits)
  with rest obtain s4 where s4: "?name = Some s4"
    and ann: "init_announce env pd ap (s4\<lparr>FEE_adapter_list := FEE_adapter_list s4 @ [ap]\<rparr>) = Some (0, s1)" by auto
  from renamed[OF s4] assms(3) obtain nm where nm: "s4 = s\<lparr>pdevs := (pdevs s)(pd \<mapsto> Q\<lparr>pci_slot_name := nm\<rparr>)\<rparr>" by auto
  let ?s5 = "s4\<lparr>FEE_adapter_list := FEE_adapter_list s4 @ [ap]\<rparr>"
  have "fee_inv ?s5" by (rule fee_inv_same[OF assms(2)]) (simp_all add: nm)
  then have e: "fee_inv s1" "mail_change ?s5 s1"
    using init_announce_ok[OF _ _ assms(5) ann, of A] assms(4) by (simp_all add: nm)
  show thesis by (rule that[of nm]) (use dup \<open>\<not> dup\<close> e(1) mail_changeD[OF e(2)] in \<open>simp_all add: nm\<close>)
qed

lemma init_one_probed:
  assumes "probe_ok env pd P s" "FEE_init_one env pd s = Some (0, s1)"
  shows "probed env pd P s s1"
proof -
  let ?ap = "probe_ap env" and ?m = "p_msix env"
  define A where "A = new_adapter (p_adapter env) pd P (glob s)"
  define es where "es = irq_table ?m (unat (nEvents (glob s)))"
  note ok = assms(1)[unfolded probe_ok_def]
  from init_one_created[OF assms, folded A_def] obtain s2 s3 where
    s2: "fee_inv s2" "adapters s2 = (adapters s)(?ap \<mapsto> A)" "glob s2 = glob s"
      "FEE_adapter_list s2 = FEE_adapter_list s" "pdevs s2 = (pdevs s)(pd \<mapsto> P\<lparr>drvdata := ?ap\<rparr>)"
      "bad (led s2) = bad (led s)"
      "mset (held (led s2)) = mset (held (led s)) + {#PciEnabled pd#} + adapter_res ?ap pd A"
    and i: "FEE_ISR_setup ?m pd s2 = Some (0, s3)" and rest: "init_list env pd ?ap s3 = Some (0, s1)"
    by blast
  have "globals A \<noteq> NULL" using fee_inv_adapter[OF s2(1), of ?ap A] s2(2) adapter_ok_globals by simp
  then have "setup_done ?m pd ?ap A s2 s3"
    using setup_outcome[of s2 pd "P\<lparr>drvdata := ?ap\<rparr>" A ?m] s2(2,5) ok i by auto
  then obtain l where ep: "kz_entries ?m \<noteq> NULL" and s3: "s3 = with_irqs ?ap A (Some (kz_entries ?m, es)) l s2"
    and l: "bad l = bad (led s)" "mset (held l) = mset (held (led s)) + {#PciEnabled pd#} + adapter_res ?ap pd A +
       {#Kmem (kz_entries ?m), IrqVectors pd#} + irq_res es"
    using s2 by (auto simp: setup_done_def es_def)
  let ?Q = "P\<lparr>drvdata := ?ap\<rparr>" and ?A = "A\<lparr>IRQ_private := Some (kz_entries ?m, es)\<rparr>"
  have f3: "fee_inv s3" "adapters s3 = (adapters s)(?ap \<mapsto> ?A)" "pdevs s3 = (pdevs s)(pd \<mapsto> ?Q)"
    "glob s3 = glob s" "FEE_adapter_list s3 = FEE_adapter_list s" "led s3 = l"
    using s2 with_irqs_inv[OF s2(1), of ?ap A] by (simp_all add: s3) (simp add: with_irqs_def)
  obtain nm where dup: "on_list (bar1_name ?Q) (FEE_adapter_list s3) s3 = Some False"
    and f1: "fee_inv s1" "adapters s1 = adapters s3" "glob s1 = glob s3" "led s1 = led s3"
      "FEE_adapter_list s1 = FEE_adapter_list s3 @ [?ap]" "pdevs s1 = (pdevs s3)(pd \<mapsto> ?Q\<lparr>pci_slot_name := nm\<rparr>)"
    by (rule init_list_listed[OF rest f3(1), of ?Q ?A]) (use f3(2,3) ok in auto)
  have others: "cur \<noteq> ?ap \<and> (\<exists>C Q. pdev C \<noteq> pd \<and> adapters s cur = Some C \<and> pdevs s (pdev C) = Some Q \<and>
      \<not> STREQ (bar1_name Q) (bar1_name P))" if "cur \<in> set (FEE_adapter_list s)" for cur
  proof -
    from dup that obtain C Q where cq: "adapters s3 cur = Some C" "pdevs s3 (pdev C) = Some Q"
      "\<not> STREQ (bar1_name P) (bar1_name Q)" unfolding f3(5) by (auto simp: on_list_False)
    have pd: "pdev C \<noteq> pd" using cq f3(3) by (auto simp: STREQ_def)
    then have "cur \<noteq> ?ap" using cq(1) f3(2) by (auto simp: A_def)
    with cq pd show ?thesis by (auto simp: f3(2,3) STREQ_def)
  qed
  show ?thesis
    unfolding probed_def Let_def A_def[symmetric] es_def[symmetric]
    using f1 l ep f3 others by auto
qed

section \<open>Lemmas: a removal\<close>

lemma unlist_others:
  assumes "\<forall>cur \<in> set xs. \<exists>C Q. adapters s cur = Some C \<and> pdevs s (pdev C) = Some Q \<and> \<not> STREQ (bar1_name Q) loc"
    and "adapters s ap = Some A" "pdevs s (pdev A) = Some P" "STREQ (bar1_name P) loc"
  shows "unlist loc (xs @ [ap]) s = Some xs"
  using assms by (induction xs) auto

lemma destroy_eq:
  assumes "adapters s ap = Some A" "pdevs s pd = Some P" "drvdata P = ap" "ap \<noteq> NULL" "pd \<noteq> NULL" "pdev A = pd"
    and "IRQ_private A = None" "outgoing A = None" "ad_core A = NULL"
  shows "FEE_adapter_destroy ap s = Some (gone ap pd P (release (Kmem ap) (unmap_led pd A (led s))) s)"
proof -
  have "P\<lparr>drvdata := ap\<rparr> = P" using assms(3) by simp
  then have "built ap A pd P (led s) s = s"
    using assms(1,2) by (intro fee_state.equality) (simp_all add: built_def map_upd_triv)
  then show ?thesis using destroy_built[OF assms(4-9), of P "led s" s] by simp
qed

lemma cclass_upd_inv:
  assumes "fee_inv s" "adapters s ap = Some A" "length cc = 32"
  shows "fee_inv (wr_slot A (my_slot A) ((my_mail s A)\<lparr>cclass := cc\<rparr>) s)"
proof -
  have v: "valid_id (glob s) (unat (my_id A))" and o: "my_slot A - globals A = slot_off (glob s) (unat (my_id A))"
    using fee_inv_adapter[OF assms(1,2)] by (simp_all add: adapter_ok_def)
  have "slot_ok (glob s) (unat (my_id A)) ((my_mail s A)\<lparr>cclass := cc\<rparr>)"
    using fee_inv_slot[OF assms(1) v] assms(3) by (simp add: slot_ok_def my_mail_def)
  from fee_inv_mail_upd[OF assms(1) v this] show ?thesis by (simp add: wr_slot_def o)
qed

lemma strcpy_fits: "length (cstr src) < length dst \<Longrightarrow> \<exists>d. strcpy dst src = Some d \<and> length d = length dst"
  by (simp add: strcpy_def store_at_def)

lemma sprintf_slot: "num < 256 \<Longrightarrow> \<exists>b. sprintf 8 (show_nat num) = Some b"
  using length_show_base[of 10 num 2] by (simp add: sprintf_def)

text \<open>The last message of an adapter: its slot is marked driverless and the switch is told.\<close>

lemma mark_driverless:
  assumes "fee_inv t" "adapters t ap = Some A" "benign w ap" "clock_runs w" "mail_only w"
  shows "\<exists>m cc r v. rd_slot t A (my_slot A) = Some m \<and> strcpy (cclass m) ''Driverless QEMU'' = Some cc \<and>
    UPDATE_SWITCH w ap (wr_slot A (my_slot A) (m\<lparr>cclass := cc\<rparr>) t) = Some (r, v) \<and> adapters v = adapters t \<and>
    pdevs v = pdevs t \<and> led v = led t \<and> glob v = glob t \<and> FEE_adapter_list v = FEE_adapter_list t"
proof -
  have rd: "rd_slot t A (my_slot A) = Some (my_mail t A)" by (rule rd_my_mail[OF assms(1,2)])
  have "length (cclass (my_mail t A)) = 32"
    using fee_inv_slot[OF assms(1)] fee_inv_adapter[OF assms(1,2)] by (simp add: slot_ok_def my_mail_def adapter_ok_def)
  moreover have "length (cstr ''Driverless QEMU'') = 15" by code_simp
  ultimately obtain cc where cc: "strcpy (cclass (my_mail t A)) ''Driverless QEMU'' = Some cc" "length cc = 32"
    using strcpy_fits[of "''Driverless QEMU''" "cclass (my_mail t A)"] by auto
  let ?u = "wr_slot A (my_slot A) ((my_mail t A)\<lparr>cclass := cc\<rparr>) t"
  have u: "fee_inv ?u" "adapters ?u ap = Some A"
    using cclass_upd_inv[OF assms(1,2) cc(2)] assms(2) by (simp_all add: wr_slot_def)
  obtain r v where v: "UPDATE_SWITCH w ap ?u = Some (r, v)" "mail_change ?u v"
    using UPDATE_SWITCH_total[OF u assms(3-5)] by blast
  show ?thesis
    using rd cc(1) v(1) mail_changeD[OF v(2)]
    by (intro exI[of _ "my_mail t A"] exI[of _ cc] exI[of _ r] exI[of _ v]) (simp add: wr_slot_def)
qed

text \<open>Taking the last adapter off the list, when the others are on other devices.\<close>

lemma unlist_last:
  assumes "\<forall>cur \<in> set xs. \<exists>C Q. cur \<noteq> ap \<and> pdev C \<noteq> pd \<and> adapters s cur = Some C \<and> pdevs s (pdev C) = Some Q \<and>
      \<not> STREQ (bar1_name Q) loc"
    and "adapters x = (adapters s)(ap \<mapsto> A)" "pdevs x = (pdevs s)(pd \<mapsto> Q')" "pdev A = pd" "bar1_name Q' = loc"
  shows "unlist loc (xs @ [ap]) x = Some xs"
proof (rule unlist_others[where A = A and P = Q'])
  show "\<forall>cur \<in> set xs. \<exists>C Q. adapters x cur = Some C \<and> pdevs x (pdev C) = Some Q \<and> \<not> STREQ (bar1_name Q) loc"
    using assms(1) unfolding assms(2,3) by fastforce
qed (use assms in \<open>simp_all add: STREQ_def\<close>)

text \<open>The end of a remove: interrupts, device and list entry are given back, then the adapter.\<close>

lemma remove_tail:
  fixes v es ep A ap pd Q
  defines "A' \<equiv> A\<lparr>IRQ_private := Some (ep, es)\<rparr>"
  assumes v: "adapters v = a(ap \<mapsto> A')" "pdevs v = q(pd \<mapsto> Q)" "FEE_adapter_list v = xs @ [ap]"
    and A: "regs A \<noteq> NULL" "globals A \<noteq> NULL" "pdev A = pd" "IRQ_private A = None" "outgoing A = None" "ad_core A = NULL"
    and "drvdata Q = ap" "pd \<noteq> NULL" "ap \<noteq> NULL" "ep \<noteq> NULL" "unat (nClients (glob v) + 2) = length es" "a ap = None"
    and others: "\<forall>cur \<in> set xs. \<exists>C P. cur \<noteq> ap \<and> pdev C \<noteq> pd \<and> a cur = Some C \<and> q (pdev C) = Some P \<and>
      \<not> STREQ (bar1_name P) (bar1_name Q)"
    and held: "mset (held (led v)) = (H + {#PciEnabled pd#} + adapter_res ap pd A) + {#Kmem ep, IrqVectors pd#} + irq_res es"
  shows "\<exists>s3 s4. FEE_ISR_teardown pd v = Some s3 \<and>
    unlist (bar1_name Q) (FEE_adapter_list (k_release (PciEnabled pd) s3)) (k_release (PciEnabled pd) s3) = Some xs \<and>
    FEE_adapter_destroy ap ((k_release (PciEnabled pd) s3)\<lparr>FEE_adapter_list := xs\<rparr>) = Some s4 \<and>
    mset (held (led s4)) = H \<and> bad (led s4) = bad (led v) \<and> adapters s4 = a \<and> FEE_adapter_list s4 = xs \<and>
    pdevs s4 = q(pd \<mapsto> Q\<lparr>drvdata := NULL\<rparr>)"
proof -
  have A': "globals A' \<noteq> NULL" "IRQ_private A' = Some (ep, es)" "A'\<lparr>IRQ_private := None\<rparr> = A"
    using A by (simp_all add: A'_def)
  obtain l where td: "FEE_ISR_teardown pd v = Some (with_irqs ap A' None l v)" "bad l = bad (led v)"
    "mset (held l) = H + {#PciEnabled pd#} + adapter_res ap pd A"
    using teardown_eq(2)[of v pd Q A' ep es, OF _ _ A'(1,2) _ held] assms v by auto
  let ?l = "release (PciEnabled pd) l"
  let ?x = "(with_irqs ap A' None l v)\<lparr>led := ?l\<rparr>"
  have fx: "adapters ?x = a(ap \<mapsto> A)" "pdevs ?x = q(pd \<mapsto> Q)" "FEE_adapter_list ?x = xs @ [ap]" "led ?x = ?l"
    using v A'(3) by (simp_all add: with_irqs_def)
  have un: "unlist (bar1_name Q) (FEE_adapter_list ?x) ?x = Some xs"
    unfolding fx(3)
    by (rule unlist_last[where s = "v\<lparr>adapters := a, pdevs := q\<rparr>" and A = A and Q' = Q and pd = pd]) (use others fx A(3) in simp_all)
  let ?y = "?x\<lparr>FEE_adapter_list := xs\<rparr>"
  have des: "FEE_adapter_destroy ap ?y = Some (gone ap pd Q (release (Kmem ap) (unmap_led pd A ?l)) ?y)"
    using destroy_eq[of ?y ap A pd Q] fx A assms by simp
  have lx: "mset (held ?l) = H + adapter_res ap pd A" "bad ?l = bad (led v)" using td(2,3) by (simp_all add: ledger_simps)
  have "a(ap := None) = a" using \<open>a ap = None\<close> by auto
  then show ?thesis
    using td(1) un des unmap_led_mapped[OF lx(1) A(1,2)] lx(2) fx v
    by (intro exI[of _ "with_irqs ap A' None l v"] exI[of _ "gone ap pd Q (release (Kmem ap) (unmap_led pd A ?l)) ?y"])
      (simp add: gone_def)
qed

lemma remove_probed:
  assumes "probed env pd P s s1" "pd \<noteq> NULL" "probe_ap env \<noteq> NULL" "drvdata P = NULL" "adapters s (probe_ap env) = None"
    and "pdevs s pd = Some P" "map_error (p_adapter env) = 0" "pci_slot P = Some num" "num < 256"
    and "nEvents (glob s) = nClients (glob s) + 2"
    and "benign w (probe_ap env)" "clock_runs w" "mail_only w"
  shows "\<exists>s2 nm. FEE_remove_one r w pd s1 = Some s2 \<and> balanced (led s) (led s2) \<and> adapters s2 = adapters s \<and>
    FEE_adapter_list s2 = FEE_adapter_list s \<and> pdevs s2 = (pdevs s)(pd \<mapsto> P\<lparr>pci_slot_name := nm\<rparr>)"
proof -
  let ?ap = "probe_ap env" and ?ep = "kz_entries (p_msix env)"
  define A where "A = new_adapter (p_adapter env) pd P (glob s)"
  define es where "es = irq_table (p_msix env) (unat (nEvents (glob s)))"
  let ?A = "A\<lparr>IRQ_private := Some (?ep, es)\<rparr>"
  from assms(1) obtain nm where f: "fee_inv s1" "glob s1 = glob s" "FEE_adapter_list s1 = FEE_adapter_list s @ [?ap]"
     "?ep \<noteq> NULL" "adapters s1 = (adapters s)(?ap \<mapsto> ?A)"
     "pdevs s1 = (pdevs s)(pd \<mapsto> P\<lparr>drvdata := ?ap, pci_slot_name := nm\<rparr>)"
     "\<forall>cur \<in> set (FEE_adapter_list s). \<exists>C Q. cur \<noteq> ?ap \<and> pdev C \<noteq> pd \<and> adapters s cur = Some C \<and>
        pdevs s (pdev C) = Some Q \<and> \<not> STREQ (bar1_name Q) (bar1_name P)"
     "bad (led s1) = bad (led s)"
     "mset (held (led s1)) = mset (held (led s)) + {#PciEnabled pd#} + adapter_res ?ap pd A +
       {#Kmem ?ep, IrqVectors pd#} + irq_res es"
    unfolding probed_def Let_def A_def[symmetric] es_def[symmetric] by blast
  obtain oldname where old: "sprintf 8 (show_nat num) = Some oldname" using sprintf_slot[OF assms(9)] by blast
  define nm' where "nm' = (if r = 0 then cstr oldname else nm)"
  define Q where "Q = P\<lparr>drvdata := ?ap, pci_slot_name := nm'\<rparr>"
  let ?t = "s1\<lparr>pdevs := (pdevs s)(pd \<mapsto> Q)\<rparr>"
  have ren: "rename_slot r pd (cstr oldname) s1 = Some ?t"
    using f(6) by (auto simp: rename_slot_def nm'_def Q_def intro!: fee_state.equality)
  have t: "fee_inv ?t" "adapters ?t ?ap = Some ?A" using fee_inv_same[OF f(1)] f(5) by simp_all
  obtain m cc r2 v where mk: "rd_slot ?t ?A (my_slot ?A) = Some m" "strcpy (cclass m) ''Driverless QEMU'' = Some cc"
    "UPDATE_SWITCH w ?ap (wr_slot ?A (my_slot ?A) (m\<lparr>cclass := cc\<rparr>) ?t) = Some (r2, v)" and
    fv: "adapters v = (adapters s)(?ap \<mapsto> ?A)" "pdevs v = (pdevs s)(pd \<mapsto> Q)" "led v = led s1" "glob v = glob s"
    "FEE_adapter_list v = FEE_adapter_list s @ [?ap]"
    using mark_driverless[OF t assms(11-13)] f(2,3,5) by auto
  have A: "regs A \<noteq> NULL" "globals A \<noteq> NULL" "pdev A = pd" "IRQ_private A = None" "outgoing A = None" "ad_core A = NULL"
    using assms(7) by (auto simp: A_def map_error_def split: if_splits)
  have n: "unat (nClients (glob v) + 2) = length es" using assms(10) by (simp add: es_def irq_table_def fv(4))
  have hv: "mset (held (led v)) = (mset (held (led s)) + {#PciEnabled pd#} + adapter_res ?ap pd A) +
      {#Kmem ?ep, IrqVectors pd#} + irq_res es" using f(9) fv(3) by simp
  have Q: "drvdata Q = ?ap" "bar1_name Q = bar1_name P" "Q\<lparr>drvdata := NULL\<rparr> = P\<lparr>pci_slot_name := nm'\<rparr>"
    using assms(4) by (simp_all add: Q_def)
  from remove_tail[OF fv(1,2,5) A Q(1) assms(2,3) f(4) n assms(5) f(7)[folded Q(2)] hv] obtain s3 s4 where
    s4: "FEE_ISR_teardown pd v = Some s3"
      "unlist (bar1_name Q) (FEE_adapter_list (k_release (PciEnabled pd) s3)) (k_release (PciEnabled pd) s3) = Some (FEE_adapter_list s)"
      "FEE_adapter_destroy ?ap ((k_release (PciEnabled pd) s3)\<lparr>FEE_adapter_list := FEE_adapter_list s\<rparr>) = Some s4"
      "mset (held (led s4)) = mset (held (led s))" "bad (led s4) = bad (led v)" "adapters s4 = adapters s"
      "FEE_adapter_list s4 = FEE_adapter_list s" "pdevs s4 = (pdevs s)(pd \<mapsto> Q\<lparr>drvdata := NULL\<rparr>)"
    by (elim exE conjE) (rule that)
  have "FEE_remove_one r w pd s1 = Some s4"
    unfolding FEE_remove_one_def
    using assms(3,8) old ren t(2) mk s4(1-3) by (simp add: f(6) Let_def Q(2))
  moreover have "balanced (led s) (led s4)" using s4(4,5) f(8) fv(3) by (simp add: balanced_def)
  ultimately show ?thesis using s4(6-8) Q(3) by auto
qed

section \<open>Lemmas: a probe that fails late\<close>

lemma set_IRQ_private_frame:
  "set_IRQ_private ap x s = Some s' \<Longrightarrow> FEE_adapter_list s' = FEE_adapter_list s \<and> pdevs s' = pdevs s \<and>
    (\<forall>A. adapters s ap = Some A \<longrightarrow> (\<exists>A'. adapters s' ap = Some A' \<and> pdev A' = pdev A))"
  by (auto simp: set_IRQ_private_def wr_adapter_def)

lemma teardown_frame:
  assumes "FEE_ISR_teardown pd s = Some s'" "adapters s ap = Some A"
  shows "FEE_adapter_list s' = FEE_adapter_list s \<and> (\<exists>A'. adapters s' ap = Some A' \<and> pdev A' = pdev A)"
proof (cases "s' = s")
  case True
  then show ?thesis using assms(2) by blast
next
  case False
  with assms(1) obtain q x es where P: "set_IRQ_private q None
      (k_kfree x (k_release (IrqVectors pd) (free_irqs es s))) = Some s'"
    by (auto simp: FEE_ISR_teardown_def Let_def split: option.splits if_splits)
  obtain l where "free_irqs es s = s\<lparr>led := l\<rparr>" using free_irqs_led(1) by (rule led_onlyE)
  with P show ?thesis using assms(2) by (auto simp: set_IRQ_private_def wr_adapter_def)
qed

lemma core_destroy_frame:
  "genz_core_structure_destroy p s = Some s' \<Longrightarrow>
    FEE_adapter_list s' = FEE_adapter_list (s :: fee_state) \<and> adapters s' = adapters s"
  by (auto simp: genz_core_structure_destroy_def Let_def split: if_splits)

lemma destroy_steps:
  assumes "FEE_adapter_destroy ap s = Some s'" "ap \<noteq> NULL" "adapters s ap = Some A" "pdev A \<noteq> NULL"
  obtains s1 s2 s3 s4 where "unmapBARs (pdev A) s = Some s1" "set_drvdata (pdev A) NULL s1 = Some s2"
    "led_only s2 s3" "genz_core_structure_destroy (ad_core A) s3 = Some s4"
    "s' = (k_kfree ap s4)\<lparr>adapters := (adapters s4)(ap := None)\<rparr>"
proof -
  define h where "h t = (case outgoing A of None \<Rightarrow> (case IRQ_private A of None \<Rightarrow> t | Some (p, _) \<Rightarrow> k_kfree p t)
    | Some b \<Rightarrow> k_kfree (bb_ptr b) (case IRQ_private A of None \<Rightarrow> t | Some (p, _) \<Rightarrow> k_kfree p t))" for t :: fee_state
  have h: "led_only t (h t)" for t by (simp add: h_def split: option.splits prod.splits)
  have "FEE_adapter_destroy ap s = do {
      s1 \<leftarrow> unmapBARs (pdev A) s; s2 \<leftarrow> set_drvdata (pdev A) NULL s1;
      s5 \<leftarrow> genz_core_structure_destroy (ad_core A) (h s2);
      Some ((k_kfree ap s5)\<lparr>adapters := (adapters s5)(ap := None)\<rparr>) }"
    using assms(2-4) by (simp add: FEE_adapter_destroy_def Let_def h_def del: bind_eq_Some)
  with assms(1) show thesis by simp (elim exE conjE, rule that[OF _ _ h], assumption, assumption, assumption, simp)
qed

lemma destroy_frame:
  assumes "FEE_adapter_destroy ap s = Some s'" "ap \<noteq> NULL" "adapters s ap = Some A" "pdev A \<noteq> NULL"
  shows "adapters s' ap = None \<and> FEE_adapter_list s' = FEE_adapter_list s"
  using assms
proof (cases rule: destroy_steps)
  case (1 s1 s2 s3 s4)
  then have "FEE_adapter_list s3 = FEE_adapter_list s"
    by (auto simp: unmapBARs_def set_drvdata_def wr_adapter_def Let_def elim!: led_onlyE)
  with core_destroy_frame[OF 1(4)] 1(5) show ?thesis by simp
qed

lemma announce_failed:
  assumes "init_announce env pd ap s = Some (ret, s')" "ret \<noteq> 0" "ap \<noteq> NULL"
    and "fee_inv s" "adapters s ap = Some A" "pdev A \<noteq> NULL" "mail_only (p_send1 env)"
  shows "adapters s' ap = None \<and> FEE_adapter_list s' = FEE_adapter_list s"
proof -
  define f where "f r = (if r > 0 then if r = int (length get_peer_attributes) then 0 else err EIO else r)" for r
  let ?send = "\<lambda>G. FEE_create_outgoing (p_send1 env) (s32 (uint (server_id G)))
      GENZ_FEE_SID_CID_IS_PEER_ID (get_peer_attributes @ [NUL]) (of_nat (length get_peer_attributes)) ap s"
  have "do { G \<leftarrow> rd_globals s A; (r, s1) \<leftarrow> ?send G;
      if f r = 0 then do { (_, s2) \<leftarrow> UPDATE_SWITCH (p_send2 env) ap s1; Some (f r, s2) }
      else err_MSIX_teardown pd ap (f r) s1 } = Some (ret, s')"
    using assms(1) by (simp only: init_announce_def assms(5) bind.simps(2) Let_def f_def)
  then obtain cid r s1 where c: "FEE_create_outgoing (p_send1 env) cid GENZ_FEE_SID_CID_IS_PEER_ID
      (get_peer_attributes @ [NUL]) (of_nat (length get_peer_attributes)) ap s = Some (r, s1)" and e: "err_MSIX_teardown pd ap (f r) s1 = Some (ret, s')"
    using assms(2) by (auto split: if_splits)
  note fr = mail_changeD[OF create_outgoing_mail_only[OF c assms(7,4,5)]]
  from e obtain s2 where t: "FEE_ISR_teardown pd s1 = Some s2"
    and d: "FEE_adapter_destroy ap (k_release (PciEnabled pd) s2) = Some s'"
    by (auto simp: err_MSIX_teardown_def err_pci_disable_device_def)
  from teardown_frame[OF t, of ap A] fr(1,5) assms(5) obtain A2 where
    "FEE_adapter_list s2 = FEE_adapter_list s" "adapters s2 ap = Some A2" "pdev A2 \<noteq> NULL"
    using assms(6) by auto
  then show ?thesis using destroy_frame[OF d assms(3), of A2] by simp
qed

text \<open>A probe for the witnesses: the second device of \<open>hotplug_state\<close>, and a mailbox whose slots are too
  small for the question to the server.\<close>

definition probe_env0 :: probe_env where
  "probe_env0 = \<lparr>r_enable_device = 0, p_adapter = adapter_env0, p_msix = irq_env\<lparr>kz_entries := 0xD000\<rparr>,
     r_rename = 0, p_send1 = example_env, p_send2 = example_env\<rparr>"

lemma example_env_mail_only: "mail_only example_env"
  unfolding mail_only_def
proof (intro allI)
  fix k d and s :: fee_state
  have "sleep example_env k d s = s\<lparr>mail := mail s\<rparr>" by (simp add: example_env_def)
  then show "\<exists>m. sleep example_env k d s = s\<lparr>mail := m\<rparr>" by blast
qed

lemma hotplug_probe_ok: "probe_ok probe_env0 0x200 new_pdev hotplug_state"
  using hotplug_state_facts adapter_env0_facts(2) example_env_benign example_env_clock example_env_mail_only
  by (simp add: probe_ok_def probe_env0_def int32_range_def) (simp add: irq_env_def)

section \<open>Properties\<close>

text \<open>C16: a successful probe appends the new adapter to the list, keeps the invariant, and adds exactly the
  device's resources; the matching removal, whatever happened to the mail in between, gives every resource
  back once, restores the list and the adapters, and frees the device for the next probe. This needs the
  server to announce two events more than clients.\<close>

theorem probe_then_remove:
  assumes "probe_ok env pd P s" "FEE_init_one env pd s = Some (0, s1)"
    and "pci_slot P = Some num" "num < 256" "nEvents (glob s) = nClients (glob s) + 2"
    and "benign w (probe_ap env)" "clock_runs w" "mail_only w"
  shows "fee_inv s1 \<and> FEE_adapter_list s1 = FEE_adapter_list s @ [probe_ap env] \<and>
    (\<exists>A. adapters s1 = (adapters s)(probe_ap env \<mapsto> A) \<and> pdev A = pd \<and> my_id A = ucast (IVPosition P)) \<and>
    (\<exists>s2 nm. FEE_remove_one r w pd s1 = Some s2 \<and> balanced (led s) (led s2) \<and> adapters s2 = adapters s \<and>
      FEE_adapter_list s2 = FEE_adapter_list s \<and> pdevs s2 = (pdevs s)(pd \<mapsto> P\<lparr>pci_slot_name := nm\<rparr>))"
proof -
  note p = init_one_probed[OF assms(1,2)]
  note c = init_one_created[OF assms(1,2)]
  have ok: "pd \<noteq> NULL" "adapters s (probe_ap env) = None" "pdevs s pd = Some P"
    using assms(1) by (simp_all add: probe_ok_def)
  have "\<exists>s2 nm. FEE_remove_one r w pd s1 = Some s2 \<and> balanced (led s) (led s2) \<and> adapters s2 = adapters s \<and>
      FEE_adapter_list s2 = FEE_adapter_list s \<and> pdevs s2 = (pdevs s)(pd \<mapsto> P\<lparr>pci_slot_name := nm\<rparr>)"
    by (rule remove_probed[OF p ok(1) _ _ ok(2,3) _ assms(3-8)]) (use c in blast)+
  moreover have "\<exists>A. adapters s1 = (adapters s)(probe_ap env \<mapsto> A) \<and> pdev A = pd \<and> my_id A = ucast (IVPosition P)"
    using p by (auto simp: probed_def Let_def)
  moreover have "fee_inv s1" "FEE_adapter_list s1 = FEE_adapter_list s @ [probe_ap env]"
    using p by (simp_all add: probed_def Let_def)
  ultimately show ?thesis by blast
qed

theorem probe_then_remove_witness:
  "\<exists>s1 s2. FEE_init_one probe_env0 0x200 hotplug_state = Some (0, s1) \<and> fee_inv s1 \<and>
     FEE_adapter_list s1 = [0xA000, 0xB000] \<and> FEE_remove_one 0 example_env 0x200 s1 = Some s2 \<and>
     balanced (led hotplug_state) (led s2) \<and> FEE_adapter_list s2 = [0xA000]"
proof -
  have "map_option fst (FEE_init_one probe_env0 0x200 hotplug_state) = Some 0" by code_simp
  then obtain s1 where i: "FEE_init_one probe_env0 0x200 hotplug_state = Some (0, s1)" by auto
  have k: "pci_slot new_pdev = Some 5" "FEE_adapter_list hotplug_state = [0xA000]" "probe_ap probe_env0 = 0xB000"
    by (simp_all add: new_pdev_def hotplug_state_def example_state_def probe_env0_def adapter_env0_def)
  have n: "nEvents (glob hotplug_state) = nClients (glob hotplug_state) + 2"
    by (simp add: hotplug_state_facts(7) example_globals_def)
  from probe_then_remove[OF hotplug_probe_ok i k(1) _ n example_env_benign example_env_clock example_env_mail_only,
      of 0] i show ?thesis by (auto simp: k)
qed

text \<open>C38: a probe whose question to the server cannot be sent tears everything down and frees the adapter,
  but leaves it on the adapter list: the list then holds a dangling pointer, and every later search of the
  list that does not stop before it, in a probe, a removal or a registration, reads freed memory.\<close>

theorem failed_probe_dangles:
  assumes "init_announce env pd ap s = Some (ret, s1)" "ret \<noteq> 0" "ap \<noteq> NULL"
    and "fee_inv s" "adapters s ap = Some A" "pdev A \<noteq> NULL" "mail_only (p_send1 env)"
    and "ap \<in> set (FEE_adapter_list s)"
  shows "ap \<in> set (FEE_adapter_list s1) \<and> adapters s1 ap = None \<and>
    (\<forall>loc. on_list loc (FEE_adapter_list s1) s1 \<noteq> Some False \<and> unlist loc (FEE_adapter_list s1) s1 = None)"
proof -
  have f: "adapters s1 ap = None" "ap \<in> set (FEE_adapter_list s1)"
    using announce_failed[OF assms(1-7)] assms(8) by simp_all
  have "on_list loc (FEE_adapter_list s1) s1 \<noteq> Some False" for loc using f by (force simp: on_list_False)
  moreover have "adapters t x = None \<Longrightarrow> x \<in> set xs \<Longrightarrow> unlist loc xs t = None" for loc xs t x
    by (induction xs) (auto simp: Option.bind_eq_None_conv split: option.splits)
  ultimately show ?thesis using f by blast
qed

text \<open>With slots of 144 bytes the 23 bytes of the question do not fit.\<close>

definition small_state :: fee_state where
  "small_state = (let G = example_globals\<lparr>slotsize := 144\<rparr> in
     example_state\<lparr>glob := G, mail := (\<lambda>o1. (blank_slot (unat o1 div 144))\<lparr>buf := replicate 16 NUL\<rparr>),
       adapters := [0xA000 \<mapsto> example_adapter\<lparr>my_slot := 0x20000 + slot_off G 3, max_buflen := 16\<rparr>],
       pdevs := [0x100 \<mapsto> example_pdev]\<rparr>)"

lemma small_state_inv: "fee_inv small_state"
proof -
  let ?G = "example_globals\<lparr>slotsize := 144\<rparr>"
  have g: "globals_ok ?G" by (simp add: globals_ok_def example_globals_def last_id_def MSG_OFFSET_def)
  have off: "unat (slot_off ?G n) = n * 144" if "valid_id ?G n" for n
    using slot_off_unat[OF g valid_id_le[OF that]] by simp
  have "slot_ok ?G n (mail small_state (slot_off ?G n))" if "valid_id ?G n" for n
    using off[OF that] by (simp add: small_state_def Let_def slot_ok_def blank_slot_def payload_size_def terminated_def)
  moreover have "adapter_ok ?G (example_adapter\<lparr>my_slot := 0x20000 + slot_off ?G 3, max_buflen := 16\<rparr>)"
    by (simp add: adapter_ok_def example_adapter_def mapped_ok_def example_globals_def last_id_def valid_id_def)
  moreover have "glob small_state = ?G"
    "adapters small_state = [0xA000 \<mapsto> example_adapter\<lparr>my_slot := 0x20000 + slot_off ?G 3, max_buflen := 16\<rparr>]"
    by (simp_all add: small_state_def Let_def)
  ultimately show ?thesis using g by (auto simp: fee_inv_def split: if_splits)
qed

theorem failed_probe_dangles_witness:
  "\<exists>s1. init_announce probe_env0 0x100 0xA000 small_state = Some (err E2BIG, s1) \<and>
     0xA000 \<in> set (FEE_adapter_list s1) \<and> adapters s1 0xA000 = None"
proof -
  have "map_option fst (init_announce probe_env0 0x100 0xA000 small_state) = Some (err E2BIG)" by code_simp
  then obtain s1 where i: "init_announce probe_env0 0x100 0xA000 small_state = Some (err E2BIG, s1)" by auto
  obtain A where a: "adapters small_state 0xA000 = Some A" "pdev A \<noteq> NULL"
    by (simp add: small_state_def Let_def example_adapter_def)
  have "mail_only (p_send1 probe_env0)" "0xA000 \<in> set (FEE_adapter_list small_state)"
    by (simp_all add: probe_env0_def example_env_mail_only small_state_def Let_def example_state_def)
  with failed_probe_dangles[OF i _ _ small_state_inv a] i show ?thesis by auto
qed

end
