(* ===== verification/Fee_Register.thy ===== *)
theory Fee_Register
  imports Fee_PCI
begin

text \<open>
  Binding a bridge driver to the adapters, \<open>shim_bridge/fee_register.c\<close>: \<open>FEE_register\<close> creates a
  character device for every adapter on the list, \<open>FEE_unregister\<close> takes them down. The lemmas show what
  a registration changes, that it counts its bindings, and what its error path leaves behind.
\<close>

section \<open>Operations\<close>

text \<open>\<open>strncpy (dst, src, 31)\<close> into the class fields of the core structure and of the mailslot.\<close>

definition set_cclass :: "addr \<Rightarrow> string \<Rightarrow> fee_state \<Rightarrow> fee_state option" where
  "set_cclass ap cls1 s = do {
     A \<leftarrow> adapters s ap;
     m \<leftarrow> rd_slot s A (my_slot A);
     cc \<leftarrow> strncpy (cclass m) cls1 31;
     Some (wr_slot A (my_slot A) (m\<lparr>cclass := cc\<rparr>) s)
   }"

definition set_core_class :: "addr \<Rightarrow> string \<Rightarrow> fee_state \<Rightarrow> fee_state option" where
  "set_core_class ap cls1 s = do {
     A \<leftarrow> adapters s ap;
     core \<leftarrow> cores s (ad_core A);
     cc \<leftarrow> strncpy (Base_C_Class_str core) cls1 31;
     Some (s\<lparr>cores := (cores s)(ad_core A \<mapsto> core\<lparr>Base_C_Class_str := cc\<rparr>)\<rparr>)
   }"

definition set_chrdev :: "addr \<Rightarrow> errptr \<Rightarrow> fee_state \<Rightarrow> fee_state option" where
  "set_chrdev ap r s = do { A \<leftarrow> adapters s ap; Some (wr_adapter ap (A\<lparr>genz_chrdev := r\<rparr>) s) }"

text \<open>What a driver passes to \<open>FEE_register\<close>.\<close>

record fee_driver =
  drv_core :: addr
  drv_fops :: addr
  drv_owner :: string
  drv_attr :: bin_attribute
  drv_onlySlot :: int

text \<open>The body of the loop for one adapter, after the slot check: the error of
  \<open>genz_register_char_device\<close> on the left.\<close>

definition bind_adapter ::
  "chrdev_env \<Rightarrow> wait_env \<Rightarrow> fee_driver \<Rightarrow> addr \<Rightarrow> fee_state \<Rightarrow> ((int + unit) \<times> fee_state) option" where
  "bind_adapter cenv wenv drv ap s = do {
     A \<leftarrow> adapters s ap;
     (r, s1) \<leftarrow> genz_register_char_device cenv (drv_core drv) (drv_fops drv) (drv_owner drv) ap
                  (drv_attr drv) (ad_slot A) s;
     s2 \<leftarrow> set_chrdev ap r s1;
     case r of
       Inl e \<Rightarrow> Some (Inl e, s2)
     | Inr cd \<Rightarrow> do {
         A2 \<leftarrow> adapters s2 ap;
         let s3 = wr_adapter ap (A2\<lparr>ad_core := drv_core drv\<rparr>) s2;
         d \<leftarrow> chrdevs s3 cd;
         cls \<leftarrow> cd_cclass d;
         s4 \<leftarrow> set_core_class ap cls s3;
         s5 \<leftarrow> set_cclass ap cls s4;
         (_, s6) \<leftarrow> UPDATE_SWITCH wenv ap s5;
         Some (Inr (), s6)
       }
   }"

fun register_loop ::
  "(addr \<Rightarrow> chrdev_env) \<Rightarrow> (addr \<Rightarrow> wait_env) \<Rightarrow> fee_driver \<Rightarrow> int \<Rightarrow> addr list \<Rightarrow> fee_state \<Rightarrow>
   (int \<times> fee_state) option" where
  "register_loop cenv wenv drv nbindings [] s = Some (nbindings, s)"
| "register_loop cenv wenv drv nbindings (ap # rest) s = do {
     A \<leftarrow> adapters s ap;
     if drv_onlySlot drv \<noteq> 0 \<and> drv_onlySlot drv \<noteq> ad_slot A
     then register_loop cenv wenv drv nbindings rest s
     else do {
       (r, s1) \<leftarrow> bind_adapter (cenv ap) (wenv ap) drv ap s;
       case r of
         Inl e \<Rightarrow> Some (e, s1)
       | Inr _ \<Rightarrow> register_loop cenv wenv drv (nbindings + 1) rest s1
     }
   }"

text \<open>\<open>r_down\<close> is the result of \<open>down_interruptible\<close>.\<close>

definition FEE_register ::
  "int \<Rightarrow> (addr \<Rightarrow> chrdev_env) \<Rightarrow> (addr \<Rightarrow> wait_env) \<Rightarrow> fee_driver \<Rightarrow> fee_state \<Rightarrow> (int \<times> fee_state) option" where
  "FEE_register r_down cenv wenv drv s =
     (if r_down \<noteq> 0 then Some (r_down, s)
      else register_loop cenv wenv drv 0 (FEE_adapter_list s) s)"

text \<open>Whether the adapter's device is one of the driver's; an \<open>ERR_PTR\<close> is dereferenced.\<close>

definition bound_to :: "addr \<Rightarrow> FEE_adapter \<Rightarrow> fee_state \<Rightarrow> bool option" where
  "bound_to fops A s =
     (case genz_chrdev A of
        Inl e \<Rightarrow> None
      | Inr p \<Rightarrow> if p = NULL then Some False else do { d \<leftarrow> chrdevs s p; Some (cdev_ops d = fops) })"

definition unbind_adapter :: "wait_env \<Rightarrow> addr \<Rightarrow> fee_state \<Rightarrow> fee_state option" where
  "unbind_adapter wenv ap s = do {
     A \<leftarrow> adapters s ap;
     s1 \<leftarrow> (case genz_chrdev A of Inl e \<Rightarrow> None | Inr p \<Rightarrow> genz_unregister_char_device p s);
     s2 \<leftarrow> set_chrdev ap (Inr NULL) s1;
     s3 \<leftarrow> set_cclass ap DEFAULT_CCLASS s2;
     s4 \<leftarrow> set_core_class ap DEFAULT_CCLASS s3;
     (_, s5) \<leftarrow> UPDATE_SWITCH wenv ap s4;
     Some s5
   }"

fun unregister_loop ::
  "(addr \<Rightarrow> wait_env) \<Rightarrow> addr \<Rightarrow> int \<Rightarrow> addr list \<Rightarrow> fee_state \<Rightarrow> (int \<times> fee_state) option" where
  "unregister_loop wenv fops ret [] s = Some (ret, s)"
| "unregister_loop wenv fops ret (ap # rest) s = do {
     A \<leftarrow> adapters s ap;
     b \<leftarrow> bound_to fops A s;
     if b then do { s1 \<leftarrow> unbind_adapter (wenv ap) ap s; unregister_loop wenv fops (ret + 1) rest s1 }
     else unregister_loop wenv fops ret rest s
   }"

definition FEE_unregister :: "int \<Rightarrow> (addr \<Rightarrow> wait_env) \<Rightarrow> addr \<Rightarrow> fee_state \<Rightarrow> (int \<times> fee_state) option" where
  "FEE_unregister r_down wenv fops s =
     (if r_down \<noteq> 0 then Some (r_down, s)
      else unregister_loop wenv fops 0 (FEE_adapter_list s) s)"

section \<open>Lemmas: what the subsystem leaves alone\<close>

text \<open>The subsystem's functions change only the subsystem's part of the state.\<close>

definition genz_only :: "'a genz_state_scheme \<Rightarrow> 'a genz_state_scheme \<Rightarrow> bool" where
  "genz_only s s' \<longleftrightarrow> genz_state.more s' = genz_state.more s \<and> cores s' = cores s"

lemma genz_only_refl [simp]: "genz_only s s"
  by (simp add: genz_only_def)

lemma genz_only_trans: "genz_only s t \<Longrightarrow> genz_only t u \<Longrightarrow> genz_only s u"
  by (simp add: genz_only_def)

lemma genz_only_upd [simp]:
  "genz_only s (s\<lparr>led := l\<rparr>)" "genz_only s (s\<lparr>chrdevs := c\<rparr>)" "genz_only s (s\<lparr>bridge_major := m\<rparr>)"
  "genz_only s (s\<lparr>bridge_minor_bitmap := b\<rparr>)" "genz_only s (s\<lparr>genz_bus_list := bl\<rparr>)"
  by (simp_all add: genz_only_def)

lemma led_only_genz: "led_only s s' \<Longrightarrow> genz_only s s'"
  by (erule led_onlyE) simp

lemma genz_only_fee:
  assumes "genz_only (s :: fee_state) s'"
  shows "adapters s' = adapters s" "mail s' = mail s" "glob s' = glob s" "cores s' = cores s"
    "FEE_adapter_list s' = FEE_adapter_list s" "pdevs s' = pdevs s" "doorbells s' = doorbells s"
proof -
  from assms have "genz_state.more s' = genz_state.more s" by (simp add: genz_only_def)
  then show "adapters s' = adapters s" "mail s' = mail s" "glob s' = glob s"
    "FEE_adapter_list s' = FEE_adapter_list s" "pdevs s' = pdevs s" "doorbells s' = doorbells s"
    by (cases s; cases s'; simp)+
  show "cores s' = cores s" using assms by (simp add: genz_only_def)
qed

lemma free_names_led_only: "led_only s (free_names as s)"
proof (induction as arbitrary: s)
  case (Cons a as)
  show ?case using led_only_trans[OF led_only_upd Cons.IH] by simp
qed simp

lemma make_ifaces_led_only: "make_ifaces kzn final n done s = Some (r, s') \<Longrightarrow> led_only s s'"
proof (induction n arbitrary: "done" s)
  case (Suc n)
  show ?case
  proof (cases "kzn (length done) = NULL")
    case True
    then show ?thesis using Suc.prems free_names_led_only[of s "rev done"] by (auto simp: Let_def)
  next
    case False
    with Suc.prems obtain d where "make_ifaces kzn final n d (k_acquire (Kmem (kzn (length done))) s) = Some (r, s')"
      by (auto simp: Let_def simp del: show_arg.simps)
    from led_only_trans[OF led_only_upd Suc.IH[OF this]] show ?thesis .
  qed
qed simp

lemma create_iface_files_led_only: "create_iface_files r i as s = (x, s') \<Longrightarrow> led_only s s'"
proof (induction r i as s rule: create_iface_files.induct)
  case (2 r i a as s)
  then show ?case using led_only_trans[OF led_only_upd] by (auto split: if_splits)
qed simp

lemma publish_led_only:
  assumes "publish_chrdev env fops own final p devt d s = (r, d', s')"
  shows "led_only s s'"
proof -
  have "led_only s (snd (create_iface_files f 0 as (s\<lparr>led := l\<rparr>)))" for f as l
    using led_only_trans[OF led_only_upd create_iface_files_led_only[OF surjective_pairing]] .
  with assms show ?thesis
    by (auto simp: publish_chrdev_def Let_def split: if_splits sum.splits prod.splits) (metis snd_conv)
qed

lemma find_bus_genz_only:
  "genz_find_bus_by_PCIslotnum kz da d (s :: 'a genz_state_scheme) = (p, s') \<Longrightarrow> genz_only s s'"
  by (auto simp: genz_find_bus_by_PCIslotnum_def genz_only_def Let_def split: if_splits option.splits)

lemma register_locked_genz_only:
  assumes "register_locked env cp core fops own fpd final slot p d s = (r, d', s')"
  shows "genz_only s s'"
proof -
  let ?m = "find_first_zero_bit (bridge_minor_bitmap s) GENZ_MINORBITS"
  define ret where "ret = (if bridge_major s \<noteq> 0 then r_register_region env else r_alloc_region env)"
  define s1 where "s1 = (if bridge_major s = 0 \<and> ret = 0 then s\<lparr>bridge_major := alloc_major env\<rparr> else s)"
  define s2 where "s2 = (k_acquire (ChrdevRegion (bridge_major s1) (of_nat ?m)) s1)
    \<lparr>bridge_minor_bitmap := (bridge_minor_bitmap s1)(?m := True)\<rparr>"
  have g1: "genz_only s s1" by (simp add: s1_def)
  have g2: "genz_only s s2" using g1 by (simp add: s2_def genz_only_def)
  obtain par s3 where b: "genz_find_bus_by_PCIslotnum (kz_bus env) (r_bus_add env) slot s2 = (par, s3)"
    by (cases "genz_find_bus_by_PCIslotnum (kz_bus env) (r_bus_add env) slot s2")
  have g3: "genz_only s s3" using genz_only_trans[OF g2 find_bus_genz_only[OF b]] .
  have "s' = s \<or> s' = s1 \<or> s' = s3 \<or> (\<exists>devt e d''. publish_chrdev env fops own final p devt e s3 = (r, d'', s'))"
    using assms
    unfolding register_locked_def Let_def ret_def[symmetric] s1_def[symmetric] s2_def[symmetric]
    by (auto simp: b split: if_splits)
  then show ?thesis
    using g1 g3 genz_only_trans[OF g3 led_only_genz[OF publish_led_only]] genz_only_refl by metis
qed

lemma remove_ifaces_led_only: "led_only s (remove_ifaces as s)"
proof (induction as arbitrary: s)
  case (Cons a as)
  show ?case using led_only_trans[OF led_only_upd Cons.IH] by (simp add: quiet_release_def)
qed simp

lemma led_only_chain:
  "led_only s t \<Longrightarrow> led_only s (quiet_release r t)" "led_only s t \<Longrightarrow> led_only s (t\<lparr>led := l\<rparr>)"
  "led_only s t \<Longrightarrow> genz_only s (t\<lparr>led := l, chrdevs := c\<rparr>)"
  by (auto simp: quiet_release_def genz_only_def elim!: led_onlyE)

lemma unregister_genz_only:
  assumes "genz_unregister_char_device p s = Some s'"
  shows "genz_only s s'"
  using assms unfolding genz_unregister_char_device_def
  by (auto split: if_splits sum.splits intro!: led_only_chain remove_ifaces_led_only)

lemma register_genz_only:
  assumes "genz_register_char_device env cp fops own fpd attr slot s = Some (r, s')"
  shows "genz_only s s'"
proof -
  have up: "genz_only t t'" if "register_up_and_out p ret d t = Some (x, t')"
    for p ret d x and t t' :: "'a genz_state_scheme"
    using that genz_only_trans[OF genz_only_upd(2) unregister_genz_only]
    by (auto simp: register_up_and_out_def Let_def split: if_splits)
  have mk: "genz_only s t" if "make_ifaces kn f n [] (s\<lparr>led := l\<rparr>) = Some (y, t)" for kn f n l y t
    using genz_only_trans[OF genz_only_upd(1) led_only_genz[OF make_ifaces_led_only[OF that]]] .
  have lock: "genz_only s t'"
    if "make_ifaces kn f n [] (s\<lparr>led := l\<rparr>) = Some (y, t)"
      "(case register_locked env cp core fops own fpd f' slot p d t of
          (ret, d', u) \<Rightarrow> register_up_and_out p ret d' u) = Some (x, t')"
    for kn f n l y t core f' p d x t'
    using genz_only_trans[OF genz_only_trans[OF mk[OF that(1)] register_locked_genz_only] up] that(2)
    by (auto split: prod.splits)
  have fail: "genz_only s (t\<lparr>chrdevs := c\<rparr>)"
    if "make_ifaces kn f n [] (s\<lparr>led := l\<rparr>) = Some (y, t)" for kn f n l y t c
    using genz_only_trans[OF mk[OF that] genz_only_upd(2)] .
  have two: "genz_only s (s\<lparr>led := l, chrdevs := c\<rparr>)" for l c by (simp add: genz_only_def)
  show ?thesis
    using assms unfolding genz_register_char_device_def
    by (auto simp: Let_def two split: if_splits option.splits intro: fail lock)
qed

text \<open>A registration touches no other device.\<close>

lemma unregister_chrdevs:
  "genz_unregister_char_device p s = Some s' \<Longrightarrow> q \<noteq> p \<Longrightarrow> chrdevs s' q = chrdevs s q"
  by (auto simp: genz_unregister_char_device_def split: if_splits sum.splits)

lemma led_only_chrdevs: "led_only s s' \<Longrightarrow> chrdevs s' = chrdevs s"
  by (auto elim!: led_onlyE)

lemma publish_device:
  assumes "publish_chrdev env fops own final p devt d s = (ret, d', s')" "this_device d = Inr NULL"
    and "\<forall>e. r_device_create env \<noteq> Inl e"
  shows "iface_attrs d' = iface_attrs d" "cd_core d' = cd_core d" "\<exists>dev. this_device d' = Inr dev"
  using assms
  by (auto simp: publish_chrdev_def Let_def split: if_splits sum.splits prod.splits)

lemma register_locked_device:
  assumes "register_locked env cp core fops own fpd final slot p d s = (ret, d', s')"
    and "this_device d = Inr NULL" "sysInterfaces d = NULL" "\<forall>e. r_device_create env \<noteq> Inl e"
  shows "iface_attrs d' = iface_attrs d" "\<exists>dev. this_device d' = Inr dev"
    "sysInterfaces d' = NULL \<or> cd_core d' = cp" "chrdevs s' = chrdevs s"
proof -
  let ?m = "find_first_zero_bit (bridge_minor_bitmap s) GENZ_MINORBITS"
  define r where "r = (if bridge_major s \<noteq> 0 then r_register_region env else r_alloc_region env)"
  define s1 where "s1 = (if bridge_major s = 0 \<and> r = 0 then s\<lparr>bridge_major := alloc_major env\<rparr> else s)"
  define s2 where "s2 = (k_acquire (ChrdevRegion (bridge_major s1) (of_nat ?m)) s1)
    \<lparr>bridge_minor_bitmap := (bridge_minor_bitmap s1)(?m := True)\<rparr>"
  obtain par s3 where b: "genz_find_bus_by_PCIslotnum (kz_bus env) (r_bus_add env) slot s2 = (par, s3)"
    by (cases "genz_find_bus_by_PCIslotnum (kz_bus env) (r_bus_add env) slot s2")
  define e where "e = d\<lparr>cd_parent := par, cd_core := cp, file_private_data := fpd,
    cd_genz_class := genz_class_getter (CCE core), cd_cclass := genz_component_class_str ! unat (CCE core),
    cd_mode := 438, cd_instance := slot\<rparr>"
  have e: "cd_core e = cp" "iface_attrs e = iface_attrs d" "this_device e = this_device d"
    by (simp_all add: e_def)
  have c: "chrdevs s1 = chrdevs s" "chrdevs s3 = chrdevs s"
    using find_bus_genz_frame[OF b] by (simp_all add: s1_def s2_def)
  have "(d' = d \<and> (s' = s \<or> s' = s1)) \<or> (d' = d\<lparr>cd_parent := NULL\<rparr> \<and> s' = s3) \<or>
    (\<exists>devt. publish_chrdev env fops own final p devt e s3 = (ret, d', s'))"
    using assms(1)
    unfolding register_locked_def Let_def r_def[symmetric] s1_def[symmetric] s2_def[symmetric]
    by (auto simp: b e_def split: if_splits)
  then consider (same) "d' = d \<and> (s' = s \<or> s' = s1)" | (bus) "d' = d\<lparr>cd_parent := NULL\<rparr> \<and> s' = s3"
    | (pub) devt where "publish_chrdev env fops own final p devt e s3 = (ret, d', s')" by blast
  then have "iface_attrs d' = iface_attrs d \<and> (\<exists>dev. this_device d' = Inr dev) \<and>
    (sysInterfaces d' = NULL \<or> cd_core d' = cp) \<and> chrdevs s' = chrdevs s"
  proof cases
    case pub
    then show ?thesis
      using publish_device[OF pub] led_only_chrdevs[OF publish_led_only[OF pub]] assms(2,4) c e by simp
  qed (use assms c in auto)
  then show "iface_attrs d' = iface_attrs d" "\<exists>dev. this_device d' = Inr dev"
    "sysInterfaces d' = NULL \<or> cd_core d' = cp" "chrdevs s' = chrdevs s" by blast+
qed

lemma unregister_returns:
  assumes "p \<noteq> NULL" "chrdevs s p = Some d" "this_device d = Inr dev"
    and "sysInterfaces d = NULL \<or>
      (\<exists>core. cores s (cd_core d) = Some core \<and> unat (MaxInterface core) \<le> length (iface_attrs d))"
  shows "\<exists>t. genz_unregister_char_device p s = Some t"
  using assms
  by (cases "dev = NULL") (auto simp: genz_unregister_char_device_def simp del: bind_eq_Some)

lemma register_total:
  assumes "cores s cp = Some core" "\<forall>e. r_device_create env \<noteq> Inl e"
  shows "\<exists>r s'. genz_register_char_device env cp fops own fpd attr slot s = Some (r, s') \<and>
    (\<forall>q. q \<noteq> kz_chrdev env \<longrightarrow> chrdevs s' q = chrdevs s q)"
proof (cases "is_bridge (CCE core) \<and> MaxInterface core \<noteq> 0 \<and> \<not> MaxInterface core > 1024 \<and>
    \<not> MaxCTL core < 8192 \<and> kz_chrdev env \<noteq> NULL \<and> kz_attrs env \<noteq> NULL")
  case False
  then show ?thesis
    using assms(1) by (auto simp: genz_register_char_device_def Let_def)
next
  case True
  define p where "p = kz_chrdev env"
  define f where "f = final_attr attr p"
  define n where "n = unat (MaxInterface core)"
  define s2 where "s2 = k_acquire (Kmem (kz_attrs env)) (k_acquire (Kmem p) s)"
  have "n \<le> 1024" using True by (simp add: n_def word_less_nat_alt)
  then obtain ifs s3 where m: "make_ifaces (kz_name env) f n [] s2 = Some (ifs, s3)"
    using make_ifaces_returns[of "[]" n "kz_name env" f s2] by auto
  have "led_only s s2" by (simp add: s2_def)
  also have "led_only s2 s3" using make_ifaces_led_only[OF m] .
  finally have lo: "led_only s s3" .
  have c3: "chrdevs s3 = chrdevs s" "cores s3 = cores s" using lo by (auto elim!: led_onlyE)
  define d where "d = zero_chrdev\<lparr>iface_attrs_ptr := kz_attrs env\<rparr>"
  have eq: "genz_register_char_device env cp fops own fpd attr slot s =
    (case ifs of None \<Rightarrow> Some (Inl (err ENOMEM), s3\<lparr>chrdevs := (chrdevs s)(p \<mapsto> d)\<rparr>)
     | Some as \<Rightarrow>
         (case register_locked env cp core fops own fpd f slot p (d\<lparr>iface_attrs := as\<rparr>) s3 of
            (ret, d', s4) \<Rightarrow> register_up_and_out p ret d' s4))"
    using True assms(1) m unfolding genz_register_char_device_def s2_def n_def f_def d_def p_def
    by (simp add: Let_def)
  show ?thesis
  proof (cases ifs)
    case None
    then show ?thesis unfolding eq by (simp add: p_def)
  next
    case (Some as)
    then have "length as = n" using make_ifaces_ok[of "kz_name env" f n "[]" s2 as s3] m by auto
    obtain ret d' s4 where l: "register_locked env cp core fops own fpd f slot p (d\<lparr>iface_attrs := as\<rparr>) s3
        = (ret, d', s4)" using prod_cases3 by blast
    have d': "iface_attrs d' = as" "\<exists>dev. this_device d' = Inr dev"
      "sysInterfaces d' = NULL \<or> cd_core d' = cp" "chrdevs s4 = chrdevs s"
      using register_locked_device[OF l] assms(2) c3 by (auto simp: d_def zero_chrdev_def)
    have "cores s4 cp = Some core"
      using register_locked_genz_only[OF l] c3 assms(1) by (simp add: genz_only_def)
    then have "\<exists>t. genz_unregister_char_device p (s4\<lparr>chrdevs := (chrdevs s4)(p \<mapsto> d')\<rparr>) = Some t"
      using d' True \<open>length as = n\<close> by (elim exE) (rule unregister_returns, auto simp: p_def n_def)
    then obtain t where t: "genz_unregister_char_device p (s4\<lparr>chrdevs := (chrdevs s4)(p \<mapsto> d')\<rparr>) = Some t" ..
    have "q \<noteq> p \<Longrightarrow> chrdevs t q = chrdevs s q" for q using unregister_chrdevs[OF t] d'(4) by simp
    then show ?thesis unfolding eq Some using l t d'(4) by (simp add: register_up_and_out_def Let_def p_def)
  qed
qed

section \<open>Lemmas: one binding\<close>

lemma strncpy_length: "length (take n (cstr src @ replicate n NUL)) = n"
  by (simp only: length_take length_append length_replicate)

lemma strncpy_fits:
  assumes "n \<le> length dst"
  shows "strncpy dst src n = Some (take n (cstr src @ replicate n NUL) @ drop n dst)"
  using assms by (simp only: strncpy_def store_at_def strncpy_length add_0 take_0 append_Nil if_True)

lemma strncpy_name:
  assumes "length dst = 32" "dst ! 31 = NUL"
  shows "\<exists>d. strncpy dst src 31 = Some d \<and> length d = 32 \<and> d ! 31 = NUL \<and> cstr d = take 31 (cstr src)"
proof -
  have "drop 31 dst = [NUL]" using assms Cons_nth_drop_Suc[of 31 dst] by simp
  then have e: "strncpy dst src 31 = Some (take 31 (cstr src @ replicate 31 NUL) @ [NUL])"
    using assms by (simp add: strncpy_fits)
  have no: "NUL \<notin> set (take 31 (cstr src))" using NUL_notin_cstr in_set_takeD by fast
  have "cstr (take 31 (cstr src @ replicate 31 NUL) @ [NUL]) = take 31 (cstr src)"
  proof (cases "31 \<le> length (cstr src)")
    case True
    then show ?thesis using no by simp
  next
    case False
    then obtain k where "31 - length (cstr src) = Suc k" by (metis Suc_diff_Suc not_le)
    with False show ?thesis by (simp add: min_def)
  qed
  then show ?thesis
    unfolding e using nth_append_length[of "take 31 (cstr src @ replicate 31 NUL)" NUL "[]"]
    by (simp only: strncpy_length length_append list.size option.inject) auto
qed

lemma name_terminated: "length d = 32 \<Longrightarrow> d ! 31 = NUL \<Longrightarrow> terminated d"
  using nth_mem[of 31 d] by (simp add: terminated_def)

text \<open>What a registration of one adapter needs: a core structure whose name is a string of 32 bytes, a kernel
  whose \<open>device_create\<close> does not fail, and peers that keep to their mailboxes.\<close>

definition bind_ok :: "chrdev_env \<Rightarrow> wait_env \<Rightarrow> addr \<Rightarrow> bool" where
  "bind_ok cenv wenv ap \<longleftrightarrow> (\<forall>e. r_device_create cenv \<noteq> Inl e) \<and>
     benign wenv ap \<and> clock_runs wenv \<and> mail_only wenv"

definition named_core :: "fee_state \<Rightarrow> addr \<Rightarrow> uint32 \<Rightarrow> bool" where
  "named_core s cp mi \<longleftrightarrow> (\<exists>c. cores s cp = Some c \<and> length (Base_C_Class_str c) = 32 \<and>
     Base_C_Class_str c ! 31 = NUL \<and> MaxInterface c = mi)"

text \<open>A device of the driver for an adapter, registered completely.\<close>

definition device_of :: "fee_driver \<Rightarrow> uint32 \<Rightarrow> addr \<Rightarrow> genz_char_device \<Rightarrow> bool" where
  "device_of drv mi ap d \<longleftrightarrow> cdev_ops d = drv_fops drv \<and> file_private_data d = ap \<and> cd_core d = drv_core drv \<and>
     (\<exists>dev. this_device d = Inr dev) \<and> length (iface_attrs d) = unat mi"

lemma bridge_class_name: "is_bridge c \<Longrightarrow> \<exists>nm. genz_component_class_str ! unat c = Some nm"
  by (auto simp: is_bridge_def genz_component_class_str_def)

lemma set_cclass_total:
  assumes "fee_inv s" "adapters s ap = Some A"
  shows "\<exists>m. set_cclass ap cls1 s = Some (s\<lparr>mail := m\<rparr>) \<and> fee_inv (s\<lparr>mail := m\<rparr>)"
proof -
  have v: "valid_id (glob s) (unat (my_id A))" using fee_inv_adapter[OF assms] by (simp add: adapter_ok_def)
  from fee_inv_slot[OF assms(1) v] have len: "length (cclass (my_mail s A)) = 32"
    by (simp add: slot_ok_def my_mail_def)
  then obtain cc where cc: "strncpy (cclass (my_mail s A)) cls1 31 = Some cc" "length cc = 32"
    by (simp add: strncpy_fits)
  from cclass_upd_inv[OF assms cc(2)] show ?thesis
    using assms(2) cc rd_my_mail[OF assms] by (auto simp: set_cclass_def wr_slot_def)
qed

lemma wr_adapter_twice [simp]: "wr_adapter ap A (wr_adapter ap B s) = wr_adapter ap A s"
  by (simp add: wr_adapter_def)

lemma bind_success:
  assumes "adapters s ap = Some A"
    and "genz_register_char_device cenv (drv_core drv) (drv_fops drv) (drv_owner drv) ap (drv_attr drv)
          (ad_slot A) s = Some (Inr cd, s1)"
    and "set_chrdev ap (Inr cd) s1 = Some s2" "adapters s2 ap = Some A2" "chrdevs s3 cd = Some d"
    and "cd_cclass d = Some nm" "set_core_class ap nm s3 = Some s4" "set_cclass ap nm s4 = Some s5"
    and "UPDATE_SWITCH wenv ap s5 = Some (x, s6)" "wr_adapter ap (A2\<lparr>ad_core := drv_core drv\<rparr>) s2 = s3"
  shows "bind_adapter cenv wenv drv ap s = Some (Inr (), s6)"
  unfolding bind_adapter_def by (simp add: assms)

text \<open>The device a successful registration makes.\<close>

lemma register_device_of:
  assumes "genz_register_char_device cenv (drv_core drv) (drv_fops drv) (drv_owner drv) ap (drv_attr drv) slot s =
      Some (Inr cd, s1)" "\<forall>e. r_device_create cenv \<noteq> Inl e" "cores s (drv_core drv) = Some core"
  obtains d nm where "cd = kz_chrdev cenv" "cd \<noteq> NULL" "chrdevs s1 cd = Some d" "device_of drv (MaxInterface core) ap d"
    "cd_cclass d = Some nm"
proof -
  have "\<forall>e. r_device_create cenv = Inl e \<longrightarrow> e \<noteq> 0" using assms(2) by blast
  from assms(1) this show thesis
  proof (cases rule: register_ok)
    case (1 c d m M dev new)
    obtain nm where "genz_component_class_str ! unat (CCE c) = Some nm" using bridge_class_name[OF 1(2)] ..
    then show thesis using that[of d nm] 1 assms(3) by (simp add: device_of_def)
  qed
qed

text \<open>The rest of a binding: the class name goes into the core structure and the slot, and the switch is told.\<close>

lemma bind_announce:
  assumes "fee_inv s" "adapters s ap = Some A" "ad_core A = cp" "cores s cp = Some core"
    and "length (Base_C_Class_str core) = 32" "Base_C_Class_str core ! 31 = NUL" "bind_ok cenv wenv ap"
  shows "\<exists>s4 s5 x s6 cc. set_core_class ap nm s = Some s4 \<and> set_cclass ap nm s4 = Some s5 \<and>
    UPDATE_SWITCH wenv ap s5 = Some (x, s6) \<and> fee_inv s6 \<and> length cc = 32 \<and> cc ! 31 = NUL \<and>
    cores s6 = (cores s)(cp \<mapsto> core\<lparr>Base_C_Class_str := cc\<rparr>) \<and> adapters s6 = adapters s \<and> glob s6 = glob s \<and>
    chrdevs s6 = chrdevs s \<and> FEE_adapter_list s6 = FEE_adapter_list s"
proof -
  obtain cc where cc: "strncpy (Base_C_Class_str core) nm 31 = Some cc" "length cc = 32" "cc ! 31 = NUL"
    using strncpy_name[OF assms(5,6)] by blast
  define s4 where "s4 = s\<lparr>cores := (cores s)(cp \<mapsto> core\<lparr>Base_C_Class_str := cc\<rparr>)\<rparr>"
  have f4: "set_core_class ap nm s = Some s4" using assms cc by (simp add: set_core_class_def s4_def)
  have i4: "fee_inv s4" "adapters s4 = adapters s" using assms(1) by (simp_all add: s4_def)
  obtain m where m: "set_cclass ap nm s4 = Some (s4\<lparr>mail := m\<rparr>)" "fee_inv (s4\<lparr>mail := m\<rparr>)"
    using set_cclass_total[OF i4(1)] i4(2) assms(2) by metis
  obtain x s6 where u: "UPDATE_SWITCH wenv ap (s4\<lparr>mail := m\<rparr>) = Some (x, s6)" "fee_inv s6"
    "mail_change (s4\<lparr>mail := m\<rparr>) s6"
    using UPDATE_SWITCH_total[OF m(2), of ap A wenv] assms(2,7) i4(2) by (auto simp: bind_ok_def)
  show ?thesis
    using f4 m(1) u(1,2) cc(2,3) mail_changeD[OF u(3)] by (intro exI conjI) (assumption | simp add: s4_def)+
qed

lemma bind_total:
  assumes "fee_inv s" "adapters s ap = Some A" "named_core s (drv_core drv) mi" "bind_ok cenv wenv ap"
  shows "\<exists>r s' A'. bind_adapter cenv wenv drv ap s = Some (r, s') \<and> fee_inv s' \<and> glob s' = glob s \<and>
    FEE_adapter_list s' = FEE_adapter_list s \<and> named_core s' (drv_core drv) mi \<and>
    adapters s' = (adapters s)(ap \<mapsto> A') \<and> ad_slot A' = ad_slot A \<and>
    (\<forall>q. q \<noteq> kz_chrdev cenv \<longrightarrow> chrdevs s' q = chrdevs s q) \<and>
    (case r of Inl e \<Rightarrow> genz_chrdev A' = Inl e
     | Inr _ \<Rightarrow> genz_chrdev A' = Inr (kz_chrdev cenv) \<and> kz_chrdev cenv \<noteq> NULL \<and> ad_core A' = drv_core drv \<and>
         (\<exists>d. chrdevs s' (kz_chrdev cenv) = Some d \<and> device_of drv mi ap d))"
proof -
  define cp where "cp = drv_core drv"
  define B where "B r = A\<lparr>genz_chrdev := r\<rparr>" for r
  from assms(3) obtain core where core: "cores s cp = Some core" "length (Base_C_Class_str core) = 32"
    "Base_C_Class_str core ! 31 = NUL" "MaxInterface core = mi" by (auto simp: named_core_def cp_def)
  have no_err: "\<forall>e. r_device_create cenv \<noteq> Inl e" using assms(4) by (simp add: bind_ok_def)
  obtain r s1 where reg: "genz_register_char_device cenv cp (drv_fops drv) (drv_owner drv) ap (drv_attr drv)
      (ad_slot A) s = Some (r, s1)" and other: "\<forall>q. q \<noteq> kz_chrdev cenv \<longrightarrow> chrdevs s1 q = chrdevs s q"
    using register_total[OF core(1) no_err] by blast
  note fr = genz_only_fee[OF register_genz_only[OF reg]]
  define s2 where "s2 = wr_adapter ap (B r) s1"
  have set: "set_chrdev ap r s1 = Some s2" using assms(2) by (simp add: set_chrdev_def fr s2_def B_def)
  have Bok: "adapter_ok (glob s) (B r)" "adapter_ok (glob s) (B r\<lparr>ad_core := cp\<rparr>)"
    using fee_inv_adapter[OF assms(1,2)] by (simp_all add: adapter_ok_def B_def)
  have ap0: "ap \<noteq> NULL" using assms(1,2) by (auto simp: fee_inv_def)
  have i1: "fee_inv s1" using fee_inv_same[OF assms(1)] fr by blast
  show ?thesis
  proof (cases r)
    case (Inl e)
    have "bind_adapter cenv wenv drv ap s = Some (Inl e, s2)"
      using reg set Inl assms(2) by (simp add: bind_adapter_def cp_def)
    moreover have "fee_inv s2" unfolding s2_def using fee_inv_adapter_upd[OF i1 ap0] Bok fr by simp
    ultimately show ?thesis
      using core fr other Inl
      by (intro exI[of _ "Inl e"] exI[of _ s2] exI[of _ "B r"]) (simp add: s2_def wr_adapter_def B_def named_core_def cp_def)
  next
    case (Inr cd)
    obtain d nm where d: "cd = kz_chrdev cenv" "cd \<noteq> NULL" "chrdevs s1 cd = Some d"
      "device_of drv mi ap d" "cd_cclass d = Some nm"
      using register_device_of[OF reg[unfolded Inr cp_def] no_err core(1)[unfolded cp_def]] unfolding core(4) by blast
    define s3 where "s3 = wr_adapter ap (B r\<lparr>ad_core := cp\<rparr>) s1"
    have s3: "adapters s3 ap = Some (B r\<lparr>ad_core := cp\<rparr>)" "cores s3 = cores s" "glob s3 = glob s"
      "chrdevs s3 = chrdevs s1" "FEE_adapter_list s3 = FEE_adapter_list s"
      "adapters s3 = (adapters s)(ap \<mapsto> B r\<lparr>ad_core := cp\<rparr>)"
      by (simp_all add: s3_def wr_adapter_def fr)
    have i3: "fee_inv s3" unfolding s3_def using fee_inv_adapter_upd[OF i1 ap0] Bok fr by simp
    obtain s4 s5 x s6 cc where u: "set_core_class ap nm s3 = Some s4" "set_cclass ap nm s4 = Some s5"
      "UPDATE_SWITCH wenv ap s5 = Some (x, s6)" "fee_inv s6" and cc: "length cc = 32" "cc ! 31 = NUL"
      "cores s6 = (cores s3)(cp \<mapsto> core\<lparr>Base_C_Class_str := cc\<rparr>)" and f6: "adapters s6 = adapters s3"
      "glob s6 = glob s3" "chrdevs s6 = chrdevs s3" "FEE_adapter_list s6 = FEE_adapter_list s3"
      using bind_announce[OF i3 s3(1), of cp core cenv wenv nm] core(1-3) s3(2) assms(4) by auto
    have "bind_adapter cenv wenv drv ap s = Some (Inr (), s6)"
    proof (rule bind_success[OF assms(2) _ _ _ _ d(5)])
      show "wr_adapter ap (B r\<lparr>ad_core := drv_core drv\<rparr>) s2 = s3" by (simp add: s2_def s3_def cp_def)
      show "adapters s2 ap = Some (B r)" by (simp add: s2_def wr_adapter_def)
    qed (use reg set Inr d s3 u in \<open>simp_all add: cp_def\<close>)
    then show ?thesis
      using u(4) other d cc core f6
      by (intro exI[of _ "Inr ()"] exI[of _ s6] exI[of _ "B r\<lparr>ad_core := cp\<rparr>"])
        (simp add: s3 B_def named_core_def cp_def[symmetric] Inr)
  qed
qed

section \<open>Lemmas: the loop\<close>

definition wanted :: "fee_driver \<Rightarrow> fee_state \<Rightarrow> addr \<Rightarrow> bool" where
  "wanted drv s ap \<longleftrightarrow> (\<exists>A. adapters s ap = Some A \<and> (drv_onlySlot drv = 0 \<or> drv_onlySlot drv = ad_slot A))"

text \<open>The adapter is bound to the driver through the device at \<open>p\<close>.\<close>

definition bound_by :: "fee_driver \<Rightarrow> uint32 \<Rightarrow> fee_state \<Rightarrow> addr \<Rightarrow> addr \<Rightarrow> bool" where
  "bound_by drv mi s ap p \<longleftrightarrow> p \<noteq> NULL \<and>
     (\<exists>A d. adapters s ap = Some A \<and> genz_chrdev A = Inr p \<and> ad_core A = drv_core drv \<and>
        chrdevs s p = Some d \<and> device_of drv mi ap d)"

text \<open>What the loop reports for a list of adapters: the wanted ones are bound in order, up to the first failure.\<close>

definition loop_result ::
  "(addr \<Rightarrow> addr) \<Rightarrow> fee_driver \<Rightarrow> uint32 \<Rightarrow> int \<Rightarrow> addr list \<Rightarrow> fee_state \<Rightarrow> int \<Rightarrow> fee_state \<Rightarrow> addr list \<Rightarrow> addr list \<Rightarrow> bool" where
  "loop_result dev drv mi n xs s ret s' dn rest \<longleftrightarrow> fee_inv s' \<and>
    FEE_adapter_list s' = FEE_adapter_list s \<and> named_core s' (drv_core drv) mi \<and>
    filter (wanted drv s) xs = dn @ rest \<and>
    (\<forall>ap \<in> set dn. bound_by drv mi s' ap (dev ap)) \<and>
    (\<forall>ap. ap \<notin> set (filter (wanted drv s) xs) \<longrightarrow> adapters s' ap = adapters s ap) \<and>
    (\<forall>q. q \<notin> dev ` set xs \<longrightarrow> chrdevs s' q = chrdevs s q) \<and>
    (case rest of [] \<Rightarrow> ret = n + int (length dn)
     | ap # _ \<Rightarrow> \<exists>A. adapters s' ap = Some A \<and> genz_chrdev A = Inl ret)"

lemma loop_result_skip:
  "\<not> wanted drv s ap \<Longrightarrow> loop_result dev drv mi n xs s ret s' dn rest \<Longrightarrow>
    loop_result dev drv mi n (ap # xs) s ret s' dn rest"
  by (simp add: loop_result_def del: set_filter)

lemma loop_result_bound:
  assumes "wanted drv s ap" "adapters s ap = Some A" "ap \<notin> set xs" "dev ap \<notin> dev ` set xs"
    and "FEE_adapter_list s1 = FEE_adapter_list s" "adapters s1 = (adapters s)(ap \<mapsto> A1)" "ad_slot A1 = ad_slot A"
    and "\<forall>q. q \<noteq> dev ap \<longrightarrow> chrdevs s1 q = chrdevs s q" "bound_by drv mi s1 ap (dev ap)"
    and "loop_result dev drv mi (n + 1) xs s1 ret s' dn rest"
  shows "loop_result dev drv mi n (ap # xs) s ret s' (ap # dn) rest"
proof -
  note r = assms(10)[unfolded loop_result_def]
  have same: "filter (wanted drv s1) xs = filter (wanted drv s) xs"
    using assms(2,6,7) by (intro filter_cong) (auto simp: wanted_def)
  have "ap \<notin> set (filter (wanted drv s1) xs)" using assms(3) by simp
  then have "adapters s' ap = adapters s1 ap" "chrdevs s' (dev ap) = chrdevs s1 (dev ap)" using r assms(4) by blast+
  then have "bound_by drv mi s' ap (dev ap)" using assms(9) by (simp add: bound_by_def)
  then show ?thesis
    unfolding loop_result_def using r assms(1,5,6,8) same by (auto split: list.splits simp del: set_filter)
qed

lemma loop_result_failed:
  assumes "wanted drv s ap" "fee_inv s1" "FEE_adapter_list s1 = FEE_adapter_list s" "named_core s1 (drv_core drv) mi"
    and "adapters s1 = (adapters s)(ap \<mapsto> A1)" "genz_chrdev A1 = Inl e" "\<forall>q. q \<noteq> dev ap \<longrightarrow> chrdevs s1 q = chrdevs s q"
  shows "loop_result dev drv mi n (ap # xs) s e s1 [] (filter (wanted drv s) (ap # xs))"
  using assms by (simp add: loop_result_def)

lemma register_loop_result:
  assumes "fee_inv s" "distinct xs" "\<forall>ap \<in> set xs. \<exists>A. adapters s ap = Some A"
    and "named_core s (drv_core drv) mi" "\<forall>ap. bind_ok (cenv ap) (wenv ap) ap"
    and "inj_on (\<lambda>ap. kz_chrdev (cenv ap)) (set xs)"
  shows "\<exists>ret s' dn rest. register_loop cenv wenv drv n xs s = Some (ret, s') \<and>
    loop_result (\<lambda>ap. kz_chrdev (cenv ap)) drv mi n xs s ret s' dn rest"
  using assms(1-4,6)
proof (induction xs arbitrary: n s)
  case Nil
  then show ?case by (intro exI[of _ n] exI[of _ s] exI[of _ "[]"]) (simp add: loop_result_def)
next
  case (Cons ap xs)
  let ?dev = "\<lambda>ap. kz_chrdev (cenv ap)"
  obtain A where A: "adapters s ap = Some A" using Cons.prems(3) by auto
  have tl: "distinct xs" "inj_on ?dev (set xs)" "ap \<notin> set xs" "?dev ap \<notin> ?dev ` set xs" using Cons.prems(2,5) by auto
  show ?case
  proof (cases "wanted drv s ap")
    case False
    then have eq: "register_loop cenv wenv drv n (ap # xs) s = register_loop cenv wenv drv n xs s"
      using A by (auto simp: wanted_def)
    show ?thesis
      unfolding eq using Cons.IH[OF Cons.prems(1) tl(1) _ Cons.prems(4) tl(2), of n] Cons.prems(3) loop_result_skip[OF False]
      by (simp, blast)
  next
    case True
    then have w: "\<not> (drv_onlySlot drv \<noteq> 0 \<and> drv_onlySlot drv \<noteq> ad_slot A)" using A by (auto simp: wanted_def)
    obtain r s1 A1 where b: "bind_adapter (cenv ap) (wenv ap) drv ap s = Some (r, s1)" and i: "fee_inv s1"
      and fr: "FEE_adapter_list s1 = FEE_adapter_list s" "named_core s1 (drv_core drv) mi"
        "adapters s1 = (adapters s)(ap \<mapsto> A1)" "ad_slot A1 = ad_slot A"
      and oth: "\<forall>q. q \<noteq> ?dev ap \<longrightarrow> chrdevs s1 q = chrdevs s q"
      and res: "case r of Inl e \<Rightarrow> genz_chrdev A1 = Inl e
        | Inr _ \<Rightarrow> genz_chrdev A1 = Inr (?dev ap) \<and> ?dev ap \<noteq> NULL \<and>
          ad_core A1 = drv_core drv \<and> (\<exists>d. chrdevs s1 (?dev ap) = Some d \<and> device_of drv mi ap d)"
      using bind_total[OF Cons.prems(1) A Cons.prems(4) assms(5)[rule_format]] by (elim exE conjE) (rule that)
    show ?thesis
    proof (cases r)
      case (Inl e)
      have "register_loop cenv wenv drv n (ap # xs) s = Some (e, s1)" using A w b Inl by auto
      moreover have "genz_chrdev A1 = Inl e" using res Inl by simp
      ultimately show ?thesis
        using loop_result_failed[where dev = ?dev, OF True i fr(1-3) _ oth] by blast
    next
      case (Inr u)
      have eq: "register_loop cenv wenv drv n (ap # xs) s = register_loop cenv wenv drv (n + 1) xs s1"
        using A w b Inr by auto
      have bnd: "bound_by drv mi s1 ap (?dev ap)" using res Inr fr(3) by (auto simp: bound_by_def)
      have "\<forall>ap \<in> set xs. \<exists>A. adapters s1 ap = Some A" using Cons.prems(3) fr(3) by auto
      from Cons.IH[OF i tl(1) this fr(2) tl(2), of "n + 1"] show ?thesis
        unfolding eq using loop_result_bound[where dev = ?dev, OF True A tl(3,4) fr(1,3,4) oth bnd] by blast
    qed
  qed
qed

lemmas register_loop_total = register_loop_result[unfolded loop_result_def]

section \<open>Properties\<close>


definition bridge_drv :: fee_driver where
  "bridge_drv = \<lparr>drv_core = 0x9000, drv_fops = 0xF000, drv_owner = ''fee_bridge'', drv_attr = plain_attr,
     drv_onlySlot = 0\<rparr>"

lemma example_bind_ok: "bind_ok good_chrdev_env example_env ap"
  using example_env_benign example_env_clock example_env_mail_only
  by (simp add: bind_ok_def good_chrdev_env_def)

lemma example_list: "FEE_adapter_list example_state = [0xA000]" "adapters example_state 0xA000 = Some example_adapter"
  "cores example_state 0x9000 = Some bridge_core" "wanted bridge_drv example_state 0xA000"
  by (simp_all add: example_state_def wanted_def bridge_drv_def)

lemma example_named_core: "named_core example_state (drv_core bridge_drv) 2"
  using example_list(3) by (simp add: named_core_def bridge_drv_def bridge_core_def zero_core_def)

lemma example_list_prems:
  "distinct (FEE_adapter_list example_state)" "\<forall>ap \<in> set (FEE_adapter_list example_state). \<exists>A. adapters example_state ap = Some A"
  "inj_on f (set (FEE_adapter_list example_state))"
  "filter (wanted bridge_drv example_state) (FEE_adapter_list example_state) = [0xA000]"
  by (simp_all add: example_list)


section \<open>Unbinding\<close>

text \<open>What an unbinding does to the other adapters, and to the adapter itself.\<close>

definition send_ok :: "wait_env \<Rightarrow> addr \<Rightarrow> bool" where
  "send_ok wenv ap \<longleftrightarrow> benign wenv ap \<and> clock_runs wenv \<and> mail_only wenv"

lemma set_core_class_Some:
  assumes "set_core_class ap nm s = Some s'" "adapters s ap = Some A"
  shows "\<exists>c. s' = s\<lparr>cores := c\<rparr>" "named_core s cp mi \<Longrightarrow> named_core s' cp mi"
  using assms
proof -
  from assms obtain core cc where c: "cores s (ad_core A) = Some core" "strncpy (Base_C_Class_str core) nm 31 = Some cc"
    "s' = s\<lparr>cores := (cores s)(ad_core A \<mapsto> core\<lparr>Base_C_Class_str := cc\<rparr>)\<rparr>"
    by (auto simp: set_core_class_def)
  then show "\<exists>c. s' = s\<lparr>cores := c\<rparr>" by blast
  assume "named_core s cp mi"
  then show "named_core s' cp mi"
    using c strncpy_name[of "Base_C_Class_str core" nm] by (auto simp: named_core_def)
qed

lemma unbind_frame:
  assumes "unbind_adapter wenv ap s = Some s'" "fee_inv s" "adapters s ap = Some A" "send_ok wenv ap"
  shows "fee_inv s'" "adapters s' = (adapters s)(ap \<mapsto> A\<lparr>genz_chrdev := Inr NULL\<rparr>)"
    "FEE_adapter_list s' = FEE_adapter_list s" "named_core s cp mi \<Longrightarrow> named_core s' cp mi"
    "\<forall>q. genz_chrdev A \<noteq> Inr q \<longrightarrow> chrdevs s' q = chrdevs s q"
proof -
  let ?B = "A\<lparr>genz_chrdev := Inr NULL\<rparr>"
  from assms(1,3) obtain p s1 s2 s3 s4 x where p: "genz_chrdev A = Inr p"
    and s1: "genz_unregister_char_device p s = Some s1" and s2: "set_chrdev ap (Inr NULL) s1 = Some s2"
    and s3: "set_cclass ap DEFAULT_CCLASS s2 = Some s3" and s4: "set_core_class ap DEFAULT_CCLASS s3 = Some s4"
    and s5: "UPDATE_SWITCH wenv ap s4 = Some (x, s')"
    by (auto simp: unbind_adapter_def split: sum.splits)
  note fr = genz_only_fee[OF unregister_genz_only[OF s1]]
  have i1: "fee_inv s1" using fee_inv_same[OF assms(2)] fr by blast
  have e2: "s2 = wr_adapter ap ?B s1" using s2 assms(3) by (simp add: set_chrdev_def fr)
  have "adapter_ok (glob s1) ?B" "ap \<noteq> NULL"
    using fee_inv_adapter[OF assms(2,3)] fr assms(2,3) by (auto simp: adapter_ok_def fee_inv_def)
  then have i2: "fee_inv s2" unfolding e2 using fee_inv_adapter_upd[OF i1] by blast
  have a2: "adapters s2 ap = Some ?B" by (simp add: e2 wr_adapter_def)
  obtain m where m: "s3 = s2\<lparr>mail := m\<rparr>" "fee_inv s3" using set_cclass_total[OF i2 a2] s3 by (metis option.inject)
  have a3: "adapters s3 ap = Some ?B" using a2 m by simp
  obtain c where c: "s4 = s3\<lparr>cores := c\<rparr>" using set_core_class_Some(1)[OF s4 a3] ..
  have i4: "fee_inv s4" "adapters s4 ap = Some ?B" using m a3 c by simp_all
  obtain y t where "UPDATE_SWITCH wenv ap s4 = Some (y, t)" "fee_inv t" "mail_change s4 t"
    using UPDATE_SWITCH_total[OF i4, of wenv] assms(4) by (auto simp: send_ok_def)
  with s5 have u: "fee_inv s'" "mail_change s4 s'" by simp_all
  note mc = mail_changeD[OF u(2)]
  show "fee_inv s'" by (rule u(1))
  show "adapters s' = (adapters s)(ap \<mapsto> ?B)" by (simp add: mc c m(1) e2 wr_adapter_def fr)
  show "FEE_adapter_list s' = FEE_adapter_list s" by (simp add: mc c m(1) e2 wr_adapter_def fr)
  show "\<forall>q. genz_chrdev A \<noteq> Inr q \<longrightarrow> chrdevs s' q = chrdevs s q"
    using unregister_chrdevs[OF s1] p by (simp add: mc c m(1) e2 wr_adapter_def)
  assume "named_core s cp mi"
  then have "named_core s3 cp mi" by (simp add: named_core_def m(1) e2 wr_adapter_def fr)
  from set_core_class_Some(2)[OF s4 a3 this] show "named_core s' cp mi" by (simp add: named_core_def mc)
qed

lemma unbind_total:
  assumes "fee_inv s" "bound_by drv mi s ap p" "named_core s (drv_core drv) mi" "send_ok wenv ap"
  shows "\<exists>s'. unbind_adapter wenv ap s = Some s'"
proof -
  from assms(2) obtain A d dev where A: "adapters s ap = Some A" "genz_chrdev A = Inr p" "ad_core A = drv_core drv"
    and d: "p \<noteq> NULL" "chrdevs s p = Some d" "cd_core d = drv_core drv" "this_device d = Inr dev"
      "length (iface_attrs d) = unat mi" by (auto simp: bound_by_def device_of_def)
  from assms(3) obtain core where core: "cores s (drv_core drv) = Some core" "length (Base_C_Class_str core) = 32"
    "MaxInterface core = mi" by (auto simp: named_core_def)
  let ?B = "A\<lparr>genz_chrdev := Inr NULL\<rparr>"
  obtain s1 where s1: "genz_unregister_char_device p s = Some s1"
    using unregister_returns[OF d(1,2,4)] core d by auto
  note fr = genz_only_fee[OF unregister_genz_only[OF s1]]
  have i1: "fee_inv s1" using fee_inv_same[OF assms(1)] fr by blast
  define s2 where "s2 = wr_adapter ap ?B s1"
  have s2: "set_chrdev ap (Inr NULL) s1 = Some s2" using A by (simp add: set_chrdev_def fr s2_def)
  have "adapter_ok (glob s1) ?B" "ap \<noteq> NULL"
    using fee_inv_adapter[OF assms(1) A(1)] fr assms(1) A(1) by (auto simp: adapter_ok_def fee_inv_def)
  then have i2: "fee_inv s2" "adapters s2 ap = Some ?B" "cores s2 = cores s"
    unfolding s2_def using fee_inv_adapter_upd[OF i1] by (simp_all add: wr_adapter_def fr)
  obtain m where m: "set_cclass ap DEFAULT_CCLASS s2 = Some (s2\<lparr>mail := m\<rparr>)" "fee_inv (s2\<lparr>mail := m\<rparr>)"
    using set_cclass_total[OF i2(1,2)] by blast
  obtain c where c: "set_core_class ap DEFAULT_CCLASS (s2\<lparr>mail := m\<rparr>) = Some (s2\<lparr>mail := m, cores := c\<rparr>)"
    using i2 A core by (auto simp: set_core_class_def strncpy_fits)
  have i4: "fee_inv (s2\<lparr>mail := m, cores := c\<rparr>)" "adapters (s2\<lparr>mail := m, cores := c\<rparr>) ap = Some ?B"
    using m i2 by simp_all
  obtain x s5 where "UPDATE_SWITCH wenv ap (s2\<lparr>mail := m, cores := c\<rparr>) = Some (x, s5)"
    using UPDATE_SWITCH_total[OF i4, of wenv] assms(4) by (auto simp: send_ok_def)
  then show ?thesis using A s1 s2 m c by (simp add: unbind_adapter_def)
qed

lemma unregister_poisoned:
  assumes "fee_inv s" "distinct xs" "ap \<in> set xs" "adapters s ap = Some A" "genz_chrdev A = Inl e"
    and "\<forall>ap. send_ok (wenv ap) ap"
  shows "unregister_loop wenv fops n xs s = None"
  using assms(1-4)
proof (induction xs arbitrary: n s)
  case (Cons x xs)
  show ?case
  proof (cases "x = ap")
    case True
    then show ?thesis using Cons.prems(4) assms(5) by (simp add: bound_to_def)
  next
    case False
    then have tl: "distinct xs" "ap \<in> set xs" using Cons.prems by auto
    show ?thesis
    proof (cases "adapters s x")
      case (Some X)
      note X = this
      show ?thesis
      proof (cases "bound_to fops X s = Some True")
        case True
        have "unregister_loop wenv fops n (x # xs) s =
          do { s1 \<leftarrow> unbind_adapter (wenv x) x s; unregister_loop wenv fops (n + 1) xs s1 }"
          by (simp add: X True)
        moreover have "unregister_loop wenv fops (n + 1) xs s1 = None"
          if "unbind_adapter (wenv x) x s = Some s1" for s1
          using unbind_frame(1,2)[OF that Cons.prems(1) X] Cons.IH[OF _ tl, of s1] assms(6) False Cons.prems(4)
          by simp
        ultimately show ?thesis by (cases "unbind_adapter (wenv x) x s") simp_all
      next
        case False
        then have "bound_to fops X s = None \<or> bound_to fops X s = Some False" by (cases "bound_to fops X s") auto
        then show ?thesis using X Cons.IH[OF Cons.prems(1) tl Cons.prems(4)] by auto
      qed
    qed simp
  qed
qed simp

text \<open>Every listed adapter is bound to the driver, or to nobody.\<close>

definition unbound :: "fee_state \<Rightarrow> addr \<Rightarrow> bool" where
  "unbound s ap \<longleftrightarrow> (\<exists>A. adapters s ap = Some A \<and> genz_chrdev A = Inr NULL)"

lemma unbind_others:
  assumes "unbind_adapter wenv ap s = Some s'" "fee_inv s" "adapters s ap = Some A" "genz_chrdev A = Inr p" "send_ok wenv ap"
    and "aq \<noteq> ap" "q \<noteq> p"
  shows "unbound s' aq = unbound s aq" "bound_by drv mi s' aq q = bound_by drv mi s aq q"
  using unbind_frame(2,5)[OF assms(1-3,5)] assms(4,6,7) by (simp_all add: unbound_def bound_by_def)

lemma unregister_loop_total:
  assumes "fee_inv s" "distinct xs" "\<forall>ap \<in> set xs. unbound s ap \<or> bound_by drv mi s ap (P ap)"
    and "inj_on P (set xs)" "named_core s (drv_core drv) mi" "\<forall>ap. send_ok (wenv ap) ap"
  shows "\<exists>s'. unregister_loop wenv (drv_fops drv) n xs s =
      Some (n + int (length (filter (\<lambda>ap. \<not> unbound s ap) xs)), s') \<and>
    fee_inv s' \<and> FEE_adapter_list s' = FEE_adapter_list s \<and> named_core s' (drv_core drv) mi \<and>
    adapters s' = (\<lambda>ap. if ap \<in> set xs then map_option (\<lambda>A. A\<lparr>genz_chrdev := Inr NULL\<rparr>) (adapters s ap)
                     else adapters s ap)"
  using assms(1-5)
proof (induction xs arbitrary: n s)
  case (Cons ap xs)
  have tl: "distinct xs" "inj_on P (set xs)" "ap \<notin> set xs" using Cons.prems by auto
  show ?case
  proof (cases "unbound s ap")
    case True
    then obtain A where A: "adapters s ap = Some A" "genz_chrdev A = Inr NULL" by (auto simp: unbound_def)
    then have id: "map_option (\<lambda>A. A\<lparr>genz_chrdev := Inr NULL\<rparr>) (adapters s ap) = adapters s ap" by simp
    have "unregister_loop wenv (drv_fops drv) n (ap # xs) s = unregister_loop wenv (drv_fops drv) n xs s"
      using A by (simp add: bound_to_def)
    then show ?thesis
      using Cons.IH[OF Cons.prems(1) tl(1) _ tl(2) Cons.prems(5), of n] Cons.prems(3) True id
      by (auto simp: fun_eq_iff)
  next
    case False
    then have b: "bound_by drv mi s ap (P ap)" using Cons.prems(3) by simp
    then obtain A where A: "adapters s ap = Some A" "genz_chrdev A = Inr (P ap)"
      and bt: "bound_to (drv_fops drv) A s = Some True"
      by (auto simp: bound_by_def device_of_def bound_to_def)
    obtain s1 where u: "unbind_adapter (wenv ap) ap s = Some s1"
      using unbind_total[OF Cons.prems(1) b Cons.prems(5)] assms(6) by blast
    note fr = unbind_frame[OF u Cons.prems(1) A(1) assms(6)[rule_format]]
    have "unregister_loop wenv (drv_fops drv) n (ap # xs) s = unregister_loop wenv (drv_fops drv) (n + 1) xs s1"
      using A bt u by simp
    moreover have same: "unbound s1 q = unbound s q" "bound_by drv mi s1 q (P q) = bound_by drv mi s q (P q)"
      if "q \<in> set xs" for q
      using unbind_others(1)[OF u Cons.prems(1) A assms(6)[rule_format], of q "P q"]
        unbind_others(2)[OF u Cons.prems(1) A assms(6)[rule_format], of q "P q"] that tl(3)
        inj_onD[OF Cons.prems(4), of q ap] by auto
    moreover have "\<forall>q \<in> set xs. unbound s1 q \<or> bound_by drv mi s1 q (P q)" using same Cons.prems(3) by simp
    ultimately obtain s' where "unregister_loop wenv (drv_fops drv) n (ap # xs) s =
        Some (n + 1 + int (length (filter (\<lambda>ap. \<not> unbound s1 ap) xs)), s')" "fee_inv s'"
      "FEE_adapter_list s' = FEE_adapter_list s" "named_core s' (drv_core drv) mi"
      "adapters s' = (\<lambda>ap. if ap \<in> set xs then map_option (\<lambda>A. A\<lparr>genz_chrdev := Inr NULL\<rparr>) (adapters s1 ap)
                     else adapters s1 ap)"
      using Cons.IH[OF fr(1) tl(1) _ tl(2) fr(4)[OF Cons.prems(5)], of "n + 1"] fr(3) by auto
    moreover have "filter (\<lambda>ap. \<not> unbound s1 ap) xs = filter (\<lambda>ap. \<not> unbound s ap) xs"
      using same by (intro filter_cong) auto
    ultimately show ?thesis
      using False A tl(3) by (intro exI[of _ s']) (auto simp: fun_eq_iff fr(2) simp del: unregister_loop.simps)
  qed
qed simp

text \<open>Registering a driver on adapters that are free: an error, or every wanted adapter bound.\<close>

lemma register_free:
  assumes "fee_inv s" "distinct (FEE_adapter_list s)" "\<forall>ap \<in> set (FEE_adapter_list s). unbound s ap"
    and "named_core s (drv_core drv) mi" "\<forall>ap. bind_ok (cenv ap) (wenv ap) ap"
    and "inj_on (\<lambda>ap. kz_chrdev (cenv ap)) (set (FEE_adapter_list s))"
  shows "\<exists>ret s1. FEE_register 0 cenv wenv drv s = Some (ret, s1) \<and> fee_inv s1 \<and>
    FEE_adapter_list s1 = FEE_adapter_list s \<and> named_core s1 (drv_core drv) mi \<and>
    ((\<exists>ap \<in> set (FEE_adapter_list s). \<exists>A. adapters s1 ap = Some A \<and> genz_chrdev A = Inl ret) \<or>
     ret = int (length (filter (wanted drv s) (FEE_adapter_list s))) \<and>
     (\<forall>ap \<in> set (FEE_adapter_list s).
        if wanted drv s ap then bound_by drv mi s1 ap (kz_chrdev (cenv ap)) else unbound s1 ap))"
proof -
  let ?L = "FEE_adapter_list s" and ?P = "\<lambda>ap. kz_chrdev (cenv ap)"
  have ex: "\<forall>ap \<in> set ?L. \<exists>A. adapters s ap = Some A" using assms(3) by (auto simp: unbound_def)
  obtain ret s1 dn rest where r: "register_loop cenv wenv drv 0 ?L s = Some (ret, s1)"
    "fee_inv s1" "FEE_adapter_list s1 = ?L" "named_core s1 (drv_core drv) mi" "filter (wanted drv s) ?L = dn @ rest"
    "\<forall>ap \<in> set dn. bound_by drv mi s1 ap (?P ap)"
    "\<forall>ap. ap \<notin> set (filter (wanted drv s) ?L) \<longrightarrow> adapters s1 ap = adapters s ap"
    "case rest of [] \<Rightarrow> ret = 0 + int (length dn)
     | ap # _ \<Rightarrow> \<exists>A. adapters s1 ap = Some A \<and> genz_chrdev A = Inl ret"
    using register_loop_total[OF assms(1,2) ex assms(4-6), of 0] by (elim exE conjE) (rule that)
  have reg: "FEE_register 0 cenv wenv drv s = Some (ret, s1)" using r(1) by (simp add: FEE_register_def)
  show ?thesis
  proof (cases rest)
    case (Cons ap z)
    then have "ap \<in> set (filter (wanted drv s) ?L)" "\<exists>A. adapters s1 ap = Some A \<and> genz_chrdev A = Inl ret"
      using r(5,8) by simp_all
    then show ?thesis using reg r(2-4) by auto
  next
    case Nil
    then have dn: "filter (wanted drv s) ?L = dn" "ret = int (length dn)" using r(5,8) by simp_all
    have "if wanted drv s ap then bound_by drv mi s1 ap (?P ap) else unbound s1 ap" if "ap \<in> set ?L" for ap
      using r(6,7) that assms(3) unfolding dn(1)[symmetric] by (auto simp: unbound_def)
    then show ?thesis using reg r(2-4) dn by auto
  qed
qed

text \<open>Then unregistering it: after an error nothing returns, otherwise every adapter is free again.\<close>

lemma unregister_registered_driver:
  assumes "fee_inv s1" "distinct L" "FEE_adapter_list s1 = L" "named_core s1 (drv_core drv) mi" "inj_on P (set L)"
    and "\<forall>ap \<in> set L. if W ap then bound_by drv mi s1 ap (P ap) else unbound s1 ap" "\<forall>ap. send_ok (wenv ap) ap"
  shows "\<exists>s2. FEE_unregister 0 wenv (drv_fops drv) s1 = Some (int (length (filter W L)), s2) \<and> fee_inv s2 \<and>
    FEE_adapter_list s2 = L \<and> named_core s2 (drv_core drv) mi \<and>
    (\<forall>ap \<in> set L. unbound s2 ap \<and> (W ap \<longrightarrow> (\<exists>A. adapters s2 ap = Some A \<and> ad_core A = drv_core drv)))"
proof -
  have all: "\<forall>ap \<in> set L. unbound s1 ap \<or> bound_by drv mi s1 ap (P ap)" using assms(6) by metis
  have "unbound s1 ap \<longleftrightarrow> \<not> W ap" if "ap \<in> set L" for ap
    using assms(6)[rule_format, OF that] by (auto simp: unbound_def bound_by_def split: if_splits)
  then have f: "filter (\<lambda>ap. \<not> unbound s1 ap) L = filter W L" by (intro filter_cong) auto
  obtain s2 where u: "unregister_loop wenv (drv_fops drv) 0 L s1 = Some (0 + int (length (filter W L)), s2)" "fee_inv s2"
    "FEE_adapter_list s2 = L" "named_core s2 (drv_core drv) mi"
    "adapters s2 = (\<lambda>ap. if ap \<in> set L then map_option (\<lambda>A. A\<lparr>genz_chrdev := Inr NULL\<rparr>) (adapters s1 ap)
                   else adapters s1 ap)"
    using unregister_loop_total[OF assms(1,2) all assms(5,4,7), of 0] unfolding f assms(3) by blast
  have "unbound s2 ap \<and> (W ap \<longrightarrow> (\<exists>A. adapters s2 ap = Some A \<and> ad_core A = drv_core drv))" if "ap \<in> set L" for ap
    using assms(6)[rule_format, OF that] that by (auto simp: u(5) unbound_def bound_by_def split: if_splits)
  then show ?thesis using u by (auto simp: FEE_unregister_def assms(3))
qed

lemma destroy_no_core:
  assumes "ap \<noteq> NULL" "adapters s ap = Some A" "pdev A \<noteq> NULL" "ad_core A \<noteq> NULL" "cores s (ad_core A) = None"
  shows "FEE_adapter_destroy ap s = None"
proof (rule ccontr)
  assume "FEE_adapter_destroy ap s \<noteq> None"
  then obtain s' where "FEE_adapter_destroy ap s = Some s'" by blast
  from this assms(1-3) show False
  proof (cases rule: destroy_steps)
    case (1 s1 s2 s3 s4)
    then have "cores s3 (ad_core A) = None"
      using assms(5) by (auto simp: unmapBARs_def set_drvdata_def wr_adapter_def Let_def elim!: led_onlyE)
    with 1(4) assms(4) show False by (simp add: genz_core_structure_destroy_def)
  qed
qed


definition shared_core_state :: fee_state where
  "shared_core_state = example_state
     \<lparr>adapters := [0xA000 \<mapsto> example_adapter\<lparr>ad_core := 0x9000\<rparr>,
                   0xB000 \<mapsto> example_adapter\<lparr>ad_core := 0x9000, pdev := 0x200\<rparr>],
      pdevs := [0x100 \<mapsto> new_pdev\<lparr>drvdata := 0xA000\<rparr>, 0x200 \<mapsto> new_pdev\<lparr>drvdata := 0xB000\<rparr>]\<rparr>"


end
