(* ===== verification/GF_Bridge.thy ===== *)
theory GF_Bridge
  imports Fee_Register
begin

unbundle bit_operations_syntax

text \<open>
  The soft-bridge driver, \<open>shim_bridge/gf_bridge.c\<close>: the character device through which user space sends and
  receives messages, its sysfs callbacks, and the module's init and exit. \<open>copy_to_user\<close>, \<open>copy_from_user\<close> and
  \<open>kstrtoint\<close> belong to the kernel and are parameters. The lemmas give the result of every branch of a read
  and a write, the bound on the sends of a write, and the life of the buffers from open to release.
\<close>

section \<open>Files and user memory\<close>

text \<open>What the driver uses of a \<open>struct file\<close>; \<open>f_container\<close> is the \<open>genz_char_device\<close> around the \<open>cdev\<close> of
  its inode.\<close>

record bridge_file =
  private_data :: addr
  f_container :: addr
  f_count :: int
  f_nonblock :: bool
  f_pos :: int

definition genz_char_drv_1stopen_private_data :: "bridge_file \<Rightarrow> fee_state \<Rightarrow> addr option" where
  "genz_char_drv_1stopen_private_data file s = do { d \<leftarrow> chrdevs s (f_container file); Some (file_private_data d) }"

text \<open>The documented behaviour of the user copies: the result is 0 exactly if every byte was copied.\<close>

locale user_copy =
  fixes copy_to_user :: "bytes \<Rightarrow> nat \<Rightarrow> bytes \<Rightarrow> int \<times> bytes"
    and copy_from_user :: "bytes \<Rightarrow> bytes \<Rightarrow> nat \<Rightarrow> int \<times> bytes"
  assumes to_ok: "copy_to_user u i d = (0, u') \<Longrightarrow> i \<le> length u \<Longrightarrow> store_at u i d = Some u'"
    and to_len: "length (snd (copy_to_user u i d)) = length u"
    and to_fits: "fst (copy_to_user u i d) = 0 \<longleftrightarrow> d = [] \<or> i + length d \<le> length u"
    and to_rest: "0 \<le> fst (copy_to_user u i d)"
    and from_ok: "n \<le> length w \<Longrightarrow> n \<le> length u \<Longrightarrow> copy_from_user w u n = (0, take n u @ drop n w)"
    and from_fault: "n \<le> length w \<Longrightarrow> length u < n \<Longrightarrow> 0 < fst (copy_from_user w u n)"
    and from_len: "n \<le> length w \<Longrightarrow> length (snd (copy_from_user w u n)) = length w"

section \<open>Open, flush, release\<close>

definition add_user :: "int \<Rightarrow> FEE_adapter \<Rightarrow> FEE_adapter" where
  "add_user k A = A\<lparr>nr_users := s32 (nr_users A + k)\<rparr>"

text \<open>\<open>kz\<close> and \<open>kz_wbuf\<close> are the results of the two allocations.\<close>

definition gf_bridge_open ::
  "addr \<Rightarrow> addr \<Rightarrow> bridge_file \<Rightarrow> fee_state \<Rightarrow> (int \<times> bridge_file \<times> fee_state) option" where
  "gf_bridge_open kz kz_wbuf file s = do {
     ap \<leftarrow> genz_char_drv_1stopen_private_data file s;
     let file = file\<lparr>private_data := ap\<rparr>;
     A0 \<leftarrow> adapters s ap;
     let A = add_user 1 A0;
     let (ret, A, s) =
       (if nr_users A = 1
        then if kz = NULL then (err ENOMEM, A, s)
          else let s = k_acquire (Kmem kz) s in
            if kz_wbuf = NULL then (err ENOMEM, A, k_kfree kz s)
            else (0, A\<lparr>outgoing := Some \<lparr>bb_ptr = kz, wbuf_ptr = kz_wbuf,
                     wbuf = replicate (unat (max_buflen A)) NUL, wbuf_mutex = False\<rparr>\<rparr>,
                  k_acquire (Kmem kz_wbuf) s)
        else (err EBUSY, A, s));
     let A = (if ret \<noteq> 0 then add_user (- 1) A else A);
     Some (ret, file, wr_adapter ap A s)
   }"

definition gf_bridge_flush :: "bridge_file \<Rightarrow> fee_state \<Rightarrow> (int \<times> fee_state) option" where
  "gf_bridge_flush file s = do {
     A \<leftarrow> adapters s (private_data file);
     Some (0, if f_count file = 1 then wr_adapter (private_data file) (add_user (- 1) A) s else s)
   }"

text \<open>The \<open>BUG_ON\<close> and the NULL pointer stop the kernel.\<close>

definition gf_bridge_release :: "bridge_file \<Rightarrow> fee_state \<Rightarrow> (int \<times> fee_state) option" where
  "gf_bridge_release file s = do {
     A \<leftarrow> adapters s (private_data file);
     if nr_users A \<noteq> 0 then None
     else do {
       B \<leftarrow> outgoing A;
       Some (0, wr_adapter (private_data file) (A\<lparr>outgoing := None\<rparr>) (k_kfree (bb_ptr B) (k_kfree (wbuf_ptr B) s)))
     }
   }"

section \<open>Read\<close>

definition sender_field :: "FEE_mailslot \<Rightarrow> string" where
  "sender_field m = format [Arg (FU (unat (peer_CID m))), Lit '','', Arg (FU (unat (peer_SID m))), Lit '':'']"

text \<open>From the \<open>snprintf\<close> to the label: the result and the user's buffer.\<close>

definition read_copy ::
  "(bytes \<Rightarrow> nat \<Rightarrow> bytes \<Rightarrow> int \<times> bytes) \<Rightarrow> FEE_mailslot \<Rightarrow> bytes \<Rightarrow> uint64 \<Rightarrow> (int \<times> bytes) option" where
  "read_copy copy_to_user sender u len = do {
     let n = length (sender_field sender);
     sidcidstr \<leftarrow> snprintf (replicate 32 NUL) 31 (sender_field sender);
     if n \<ge> 32 \<or> len < buflen sender + of_nat n - 1 then Some (err E2BIG, u)
     else case copy_to_user u 0 (take n sidcidstr) of (ret, u1) \<Rightarrow>
       if ret \<noteq> 0 then Some (if ret > 0 then err EFAULT else ret, u1)
       else if length (buf sender) < unat (buflen sender) then None
       else case copy_to_user u1 n (take (unat (buflen sender)) (buf sender)) of (ret, u2) \<Rightarrow>
         Some (if ret = 0 then s32 (uint (buflen sender + of_nat n)) else if ret > 0 then err EFAULT else ret, u2)
   }"

definition gf_bridge_read ::
  "(bytes \<Rightarrow> nat \<Rightarrow> bytes \<Rightarrow> int \<times> bytes) \<Rightarrow> (fee_state \<Rightarrow> int \<times> fee_state) \<Rightarrow> bridge_file \<Rightarrow> bytes \<Rightarrow> uint64 \<Rightarrow>
   fee_state \<Rightarrow> (int \<times> bytes \<times> bridge_file \<times> fee_state) option" where
  "gf_bridge_read copy_to_user wait_event file u len s = do {
     let ap = private_data file;
     (r, s1) \<leftarrow> FEE_await_incoming wait_event ap (f_nonblock file) s;
     case r of
       Inl e \<Rightarrow> Some (e, u, file, s1)
     | Inr p \<Rightarrow> do {
         A \<leftarrow> adapters s1 ap;
         sender \<leftarrow> rd_slot s1 A p;
         (ret, u') \<leftarrow> read_copy copy_to_user sender u len;
         s2 \<leftarrow> FEE_release_incoming ap s1;
         Some (ret, u', if ret > 0 then file\<lparr>f_pos := 0\<rparr> else file, s2)
       }
   }"

section \<open>Write\<close>

text \<open>The destination in front of the colon: \<open>CID\<close> and \<open>SID\<close>, or the error of the parser. The buffer
  already ends where the colon was; the server's id is read only for the four names.\<close>

definition parse_dest ::
  "(string \<Rightarrow> errno + int) \<Rightarrow> uint64 option \<Rightarrow> bytes \<Rightarrow> (errno + (int \<times> int)) option" where
  "parse_dest kstrtoint srv w =
     (if STREQ w ''server'' \<or> STREQ w ''switch'' \<or> STREQ w ''link'' \<or> STREQ w ''interface''
      then do { n \<leftarrow> srv; Some (Inr (s32 (uint n), GENZ_FEE_SID_CID_IS_PEER_ID)) }
      else Some (case strchr w (CHR '','') of
        Some i \<Rightarrow>
          (case kstrtoint (cstr (w[i := NUL])) of
             Inl e \<Rightarrow> Inl e
           | Inr CID \<Rightarrow> (case kstrtoint (cstr (drop (Suc i) w)) of Inl e \<Rightarrow> Inl e | Inr SID \<Rightarrow> Inr (CID, SID)))
      | None \<Rightarrow> (case kstrtoint (cstr w) of Inl e \<Rightarrow> Inl e | Inr CID \<Rightarrow> Inr (CID, GENZ_FEE_SID_CID_IS_PEER_ID))))"

text \<open>The comma is overwritten too, unless the destination is a name.\<close>

definition chop_comma :: "bytes \<Rightarrow> bytes" where
  "chop_comma w =
     (if STREQ w ''server'' \<or> STREQ w ''switch'' \<or> STREQ w ''link'' \<or> STREQ w ''interface'' then w
      else case strchr w (CHR '','') of Some i \<Rightarrow> w[i := NUL] | None \<Rightarrow> w)"

text \<open>The label \<open>restart\<close>: at most two further attempts after a timeout. \<open>env k\<close> is the world during the
  \<open>k\<close>-th attempt.\<close>

function send_restart ::
  "(nat \<Rightarrow> wait_env) \<Rightarrow> int \<Rightarrow> int \<Rightarrow> bytes \<Rightarrow> uint64 \<Rightarrow> uint64 \<Rightarrow> addr \<Rightarrow> nat \<Rightarrow> fee_state \<Rightarrow> (int \<times> fee_state) option" where
  "send_restart env CID SID body len successlen ap restarts s = do {
     (ret, s1) \<leftarrow> FEE_create_outgoing (env restarts) CID SID body len ap s;
     if ret = err ERESTARTSYS
     then if restarts < 2 then send_restart env CID SID body len successlen ap (Suc restarts) s1
          else Some (err ETIMEDOUT, s1)
     else if word_of_int ret = len then Some (s32 (uint successlen), s1)
     else if ret \<ge> 0 then Some (err EIO, s1)
     else Some (ret, s1)
   }"
  by pat_completeness auto

termination by (relation "measure (\<lambda>(_, _, _, _, _, _, _, k, _). 2 - k)") auto

declare send_restart.simps [simp del]

definition set_outgoing :: "addr \<Rightarrow> bytes \<Rightarrow> bool \<Rightarrow> fee_state \<Rightarrow> fee_state option" where
  "set_outgoing ap w mutex s = do {
     A \<leftarrow> adapters s ap;
     B \<leftarrow> outgoing A;
     Some (wr_adapter ap (A\<lparr>outgoing := Some (B\<lparr>wbuf := w, wbuf_mutex := mutex\<rparr>)\<rparr>) s)
   }"

text \<open>The label \<open>unlock_return\<close>; the buffer stays as it is.\<close>

definition unlock_return :: "addr \<Rightarrow> int \<Rightarrow> fee_state \<Rightarrow> (int \<times> fee_state) option" where
  "unlock_return ap ret s = do {
     A \<leftarrow> adapters s ap;
     B \<leftarrow> outgoing A;
     s' \<leftarrow> set_outgoing ap (wbuf B) False s;
     Some (ret, s')
   }"

definition gf_bridge_write ::
  "(bytes \<Rightarrow> bytes \<Rightarrow> nat \<Rightarrow> int \<times> bytes) \<Rightarrow> (string \<Rightarrow> errno + int) \<Rightarrow> (nat \<Rightarrow> wait_env) \<Rightarrow> bridge_file \<Rightarrow> bytes \<Rightarrow>
   uint64 \<Rightarrow> fee_state \<Rightarrow> (int \<times> fee_state) option" where
  "gf_bridge_write copy_from_user kstrtoint env file u len s = do {
     let ap = private_data file;
     A \<leftarrow> adapters s ap;
     if len \<ge> max_buflen A - 1 then Some (err E2BIG, s)
     else do {
       B \<leftarrow> outgoing A;
       s \<leftarrow> (if wbuf_mutex B then None else set_outgoing ap (wbuf B) True s);
       let (ret, w) = copy_from_user (wbuf B) u (unat len);
       if ret \<noteq> 0
       then do { s \<leftarrow> set_outgoing ap w True s; unlock_return ap (if ret > 0 then err EFAULT else ret) s }
       else do {
         w \<leftarrow> store_at w (unat len) [NUL];
         case strchr w (CHR '':'') of
           None \<Rightarrow> do { s \<leftarrow> set_outgoing ap w True s; unlock_return ap (err EBADMSG) s }
         | Some i \<Rightarrow> do {
             let w = w[i := NUL];
             dest \<leftarrow> parse_dest kstrtoint (map_option server_id (rd_globals s A)) w;
             s \<leftarrow> set_outgoing ap (chop_comma w) True s;
             case dest of
               Inl e \<Rightarrow> unlock_return ap (err e) s
             | Inr (CID, SID) \<Rightarrow> do {
                 (ret, s) \<leftarrow> send_restart env CID SID (drop (Suc i) w) (len - of_nat (Suc i)) len ap 0 s;
                 unlock_return ap ret s
               }
           }
       }
     }
   }"

section \<open>Poll and sysfs\<close>

definition POLLIN :: uint32 where "POLLIN = 0x1"
definition POLLOUT :: uint32 where "POLLOUT = 0x4"
definition POLLRDNORM :: uint32 where "POLLRDNORM = 0x40"
definition POLLWRNORM :: uint32 where "POLLWRNORM = 0x100"

definition gf_bridge_poll :: "bridge_file \<Rightarrow> fee_state \<Rightarrow> uint32 option" where
  "gf_bridge_poll file s = do {
     A \<leftarrow> adapters s (private_data file);
     m \<leftarrow> rd_slot s A (my_slot A);
     let ret = POLLIN OR POLLRDNORM;
     Some (if buflen m = 0 then ret OR (POLLOUT OR POLLWRNORM) else ret)
   }"

definition sysfs_core_text :: "genz_core_structure \<Rightarrow> string" where
  "sysfs_core_text core = format [Lit ''SID0='', Arg (FD (SID0 core)), Lit [CHR 0x0A], Lit ''CID0='', Arg (FD (CID0 core)),
     Lit [CHR 0x0A], Lit ''MaxInterface='', Arg (FD (s32 (uint (MaxInterface core)))), Lit [CHR 0x0A]]"

definition gf_bridge_sysfs_read :: "addr \<Rightarrow> string \<Rightarrow> uint64 \<Rightarrow> fee_state \<Rightarrow> (uint64 \<times> bytes) option" where
  "gf_bridge_sysfs_read brdev name n s = do {
     let buf = replicate (unat n) NUL;
     if name \<noteq> ''core''
     then do { b \<leftarrow> snprintf buf (unat (n - 1)) (''You are in the bridge driver.'' @ [CHR 0x0A]); Some (n, b) }
     else do {
       d \<leftarrow> chrdevs s brdev;
       core \<leftarrow> cores s (cd_core d);
       b \<leftarrow> snprintf buf (unat (n - 1)) (sysfs_core_text core);
       Some (n, b)
     }
   }"

definition gf_bridge_sysfs_write :: "bytes \<Rightarrow> uint64 \<Rightarrow> (uint64 \<times> bytes) option" where
  "gf_bridge_sysfs_write b n =
     (if unat (n - 1) < length b then Some (n, b[unat (n - 1) := NUL]) else None)"

section \<open>Init and exit\<close>

text \<open>The addresses of the operations table and of the two sysfs callbacks, the module's name, the parameter
  \<open>onlySlot\<close> and the kernel's answers.\<close>

record bridge_env =
  be_fops :: addr
  be_owner :: string
  be_sysfs_read :: addr
  be_sysfs_write :: addr
  be_onlySlot :: int
  be_kz_core :: addr
  be_kz_table :: addr
  be_down :: int
  be_chrdev :: "addr \<Rightarrow> chrdev_env"
  be_wait :: "addr \<Rightarrow> wait_env"

definition gf_bridge_sysfs_helper :: "bridge_env \<Rightarrow> bin_attribute" where
  "gf_bridge_sysfs_helper env = \<lparr>attr_name = [], attr_name_ptr = NULL, attr_size = 0, attr_private = NULL,
     attr_read = Custom_fn (be_sysfs_read env), attr_write = Custom_fn (be_sysfs_write env), attr_mmap = No_fn\<rparr>"

definition gf_bridge_driver :: "bridge_env \<Rightarrow> addr \<Rightarrow> fee_driver" where
  "gf_bridge_driver env core = \<lparr>drv_core = core, drv_fops = be_fops env, drv_owner = be_owner env,
     drv_attr = gf_bridge_sysfs_helper env, drv_onlySlot = be_onlySlot env\<rparr>"

text \<open>The result, \<open>_nbindings\<close>, and the state.\<close>

definition gf_bridge_init :: "bridge_env \<Rightarrow> fee_state \<Rightarrow> (int \<times> int \<times> fee_state) option" where
  "gf_bridge_init env s = do {
     (r, s1) \<leftarrow> genz_core_structure_create (be_kz_core env) (be_kz_table env) (cce_num DISCRETE_BRIDGE) s;
     case r of
       Inl e \<Rightarrow> Some (err ENOMEM, 0, s1)
     | Inr cp \<Rightarrow>
         if cp = NULL then Some (err ENOMEM, 0, s1)
         else do {
           core \<leftarrow> cores s1 cp;
           let s2 = s1\<lparr>cores := (cores s1)(cp \<mapsto> core\<lparr>MaxInterface := 2, MaxCTL := 8192\<rparr>)\<rparr>;
           (ret, s3) \<leftarrow> FEE_register (be_down env) (be_chrdev env) (be_wait env) (gf_bridge_driver env cp) s2;
           if ret < 0 then Some (ret, 0, s3)
           else Some (if ret \<noteq> 0 then 0 else err ENODEV, ret, s3)
         }
   }"

definition gf_bridge_exit :: "bridge_env \<Rightarrow> fee_state \<Rightarrow> (int \<times> fee_state) option" where
  "gf_bridge_exit env s = FEE_unregister (be_down env) (be_wait env) (be_fops env) s"

section \<open>User copies\<close>

text \<open>Copies with that behaviour: whatever does not fit the user's memory is not copied, and the rest of a
  kernel buffer is cleared.\<close>

definition copy_to_user0 :: "bytes \<Rightarrow> nat \<Rightarrow> bytes \<Rightarrow> int \<times> bytes" where
  "copy_to_user0 u i d = (case store_at u i d of Some u' \<Rightarrow> (0, u') | None \<Rightarrow> (int (length d), u))"

definition copy_from_user0 :: "bytes \<Rightarrow> bytes \<Rightarrow> nat \<Rightarrow> int \<times> bytes" where
  "copy_from_user0 w u n = (int (n - length u), take n u @ replicate (n - length u) NUL @ drop n w)"

interpretation cu: user_copy copy_to_user0 copy_from_user0
proof unfold_locales
  fix u d u' :: bytes and i :: nat
  show "copy_to_user0 u i d = (0, u') \<Longrightarrow> i \<le> length u \<Longrightarrow> store_at u i d = Some u'"
    by (auto simp: copy_to_user0_def store_at_def split: if_splits)
qed (auto simp: copy_to_user0_def copy_from_user0_def store_at_def)

section \<open>Lemmas: read\<close>

lemma sender_field_parts:
  "sender_field m = show_nat (unat (peer_CID m)) @ '','' @ show_nat (unat (peer_SID m)) @ '':''"
  by (simp add: sender_field_def format_def)

lemma sender_field_pos: "0 < length (sender_field m)"
  by (simp add: sender_field_parts)

text \<open>What a reader gets: the sender's ids, a colon, and the text.\<close>

definition read_text :: "FEE_mailslot \<Rightarrow> bytes" where
  "read_text m = sender_field m @ take (unat (buflen m)) (buf m)"

lemma snprintf_field:
  "length out \<le> 30 \<Longrightarrow> \<exists>b. snprintf (replicate 32 NUL) 31 out = Some b \<and> take (length out) b = out"
  by (simp add: snprintf_def store_at_def)

lemma snprintf_returns: "\<exists>b. snprintf (replicate 32 NUL) 31 out = Some b"
  by (simp add: snprintf_def store_at_def)

lemma read_check:
  assumes "unat (buflen m) + 160 < 2 ^ 64" "0 < n" "n < 32"
  shows "len < buflen m + of_nat n - 1 \<longleftrightarrow> Suc (unat len) < unat (buflen m) + n"
    "s32 (uint (buflen m + of_nat n)) = s32 (int (unat (buflen m) + n))"
proof -
  obtain k where k: "n = Suc k" using assms(2) by (cases n) auto
  have "unat (buflen m + of_nat k) = unat (buflen m) + k"
    using assms(1,3) k by (simp add: unat_word_ariths unat_of_nat)
  then show "len < buflen m + of_nat n - 1 \<longleftrightarrow> Suc (unat len) < unat (buflen m) + n"
    using k by (simp add: word_less_nat_alt)
  have "unat (buflen m + of_nat n) = unat (buflen m) + n"
    using assms(1,3) by (simp add: unat_word_ariths unat_of_nat)
  then show "s32 (uint (buflen m + of_nat n)) = s32 (int (unat (buflen m) + n))" by (metis uint_nat)
qed

context user_copy
begin

lemma read_copy_small:
  assumes "unat (buflen m) + 160 < 2 ^ 64" "32 \<le> length (sender_field m) \<or>
    Suc (unat len) < unat (buflen m) + length (sender_field m)"
  shows "read_copy copy_to_user m u len = Some (err E2BIG, u)"
proof -
  obtain b where "snprintf (replicate 32 NUL) 31 (sender_field m) = Some b" using snprintf_returns by blast
  then show ?thesis
    using assms(2) read_check(1)[OF assms(1) sender_field_pos, where len = len]
    by (cases "32 \<le> length (sender_field m)") (simp_all add: read_copy_def Let_def not_le)
qed

lemma read_copy_fits:
  assumes "unat (buflen m) + 160 < 2 ^ 64" "length (sender_field m) \<le> 30" "unat (buflen m) \<le> length (buf m)"
    and "length (read_text m) \<le> Suc (unat len)"
  shows "\<exists>u'. read_copy copy_to_user m u len =
      Some (if length (read_text m) \<le> length u then s32 (int (length (read_text m))) else err EFAULT, u') \<and>
    length u' = length u \<and>
    (length (read_text m) \<le> length u \<longrightarrow> u' = read_text m @ drop (length (read_text m)) u)"
proof -
  let ?f = "sender_field m" and ?b = "take (unat (buflen m)) (buf m)"
  let ?n = "length ?f"
  have total: "length (read_text m) = ?n + unat (buflen m)" using assms(3) by (simp add: read_text_def min_absorb2)
  obtain b where b: "snprintf (replicate 32 NUL) 31 ?f = Some b" "take ?n b = ?f"
    using snprintf_field[OF assms(2)] by blast
  have n: "0 < ?n" "?n < 32" using sender_field_pos assms(2) by simp_all
  have c: "\<not> len < buflen m + of_nat ?n - 1" using read_check(1)[OF assms(1) n] assms(4) total by simp
  obtain r1 u1 where 1: "copy_to_user u 0 ?f = (r1, u1)" by (cases "copy_to_user u 0 ?f")
  obtain r2 u2 where 2: "copy_to_user u1 ?n ?b = (r2, u2)" by (cases "copy_to_user u1 ?n ?b")
  have len: "length u1 = length u" "length u2 = length u" using to_len[of u 0 ?f] to_len[of u1 ?n ?b] 1 2 by auto
  have r1: "r1 = 0 \<longleftrightarrow> ?n \<le> length u" "0 \<le> r1"
    using to_fits[of u 0 ?f] to_rest[of u 0 ?f] 1 n by auto
  have r2: "r2 = 0 \<longleftrightarrow> unat (buflen m) = 0 \<or> ?n + unat (buflen m) \<le> length u" "0 \<le> r2"
    using to_fits[of u1 ?n ?b] to_rest[of u1 ?n ?b] 2 len assms(3) by (auto simp: min_absorb2)
  have eq: "read_copy copy_to_user m u len =
    (if r1 \<noteq> 0 then Some (if r1 > 0 then err EFAULT else r1, u1)
     else Some (if r2 = 0 then s32 (int (unat (buflen m) + ?n)) else if r2 > 0 then err EFAULT else r2, u2))"
    using b c n 1 2 assms(3) read_check(2)[OF assms(1) n] by (simp add: read_copy_def Let_def)
  show ?thesis
  proof (cases "length (read_text m) \<le> length u")
    case True
    then have "r1 = 0" "r2 = 0" using r1 r2 total by simp_all
    moreover from this have "store_at u 0 ?f = Some u1" "store_at u1 ?n ?b = Some u2"
      using to_ok[of u 0 ?f u1] to_ok[of u1 ?n ?b u2] 1 2 True total len by simp_all
    then have "u2 = read_text m @ drop (length (read_text m)) u"
      using True total assms(3)
      by (auto simp: store_at_def read_text_def min_absorb2 add.commute split: if_splits)
    ultimately show ?thesis using True eq total len by (simp add: add.commute)
  next
    case False
    then show ?thesis using eq r1 r2 total len by (cases "r1 = 0") auto
  qed
qed

end

text \<open>A read with a message waiting.\<close>

lemma read_waiting:
  assumes "fee_inv s" "adapters s (private_data file) = Some A" "\<not> incoming_slot_lock A" "valid_id (glob s) n"
    and "incoming_slot A = globals A + slot_off (glob s) n"
    and "read_copy ctu (mail s (slot_off (glob s) n)) u len = Some (ret, u')"
  shows "gf_bridge_read ctu we file u len s =
    Some (ret, u', if ret > 0 then file\<lparr>f_pos := 0\<rparr> else file, released (private_data file) A n s)"
proof -
  have nn: "incoming_slot A \<noteq> NULL"
    using slot_pointer_nonnull[OF assms(1,2,4)] assms(5) by simp
  then have "FEE_await_incoming we (private_data file) (f_nonblock file) s = Some (Inr (incoming_slot A), s)"
    using assms(2) by (simp add: FEE_await_incoming_def)
  moreover have "rd_slot s A (incoming_slot A) = Some (mail s (slot_off (glob s) n))"
    using nn assms(5) by (simp add: rd_slot_def)
  ultimately show ?thesis
    using assms(2,6) release_incoming_held[OF assms(1-5)] by (simp add: gf_bridge_read_def)
qed

lemma slot_sizes:
  assumes "fee_inv s" "valid_id (glob s) n"
  shows "unat (buflen (mail s (slot_off (glob s) n))) + 160 < 2 ^ 64"
    "unat (buflen (mail s (slot_off (glob s) n))) \<le> length (buf (mail s (slot_off (glob s) n)))"
proof -
  have g: "globals_ok (glob s)" using fee_inv_globals[OF assms(1)] .
  have "2 * unat (slotsize (glob s)) \<le> Suc (last_id (glob s)) * unat (slotsize (glob s))"
    using valid_id_pos[OF g assms(2)] valid_id_le[OF assms(2)] by (intro mult_right_mono) auto
  moreover have "Suc (last_id (glob s)) * unat (slotsize (glob s)) < 2 ^ 64" using g by (simp add: globals_ok_def)
  ultimately have "2 * unat (slotsize (glob s)) < 2 ^ 64" by (rule le_less_trans)
  then show "unat (buflen (mail s (slot_off (glob s) n))) + 160 < 2 ^ 64"
    "unat (buflen (mail s (slot_off (glob s) n))) \<le> length (buf (mail s (slot_off (glob s) n)))"
    using fee_inv_slot[OF assms] by (auto simp: slot_ok_def payload_size_def)
qed

section \<open>Lemmas: the text of a write\<close>

text \<open>What a message of user space means: everything up to the first colon names the destination, the rest is
  the text. A NUL in front of the colon hides it.\<close>

definition split_at :: "char \<Rightarrow> string \<Rightarrow> string \<times> string" where
  "split_at c s = (takeWhile (\<lambda>x. x \<noteq> c) s, tl (dropWhile (\<lambda>x. x \<noteq> c) s))"

definition destination :: "(string \<Rightarrow> errno + int) \<Rightarrow> int \<Rightarrow> string \<Rightarrow> errno + (int \<times> int)" where
  "destination kst srv h =
     (if h \<in> {''server'', ''switch'', ''link'', ''interface''} then Inr (srv, - 42)
      else if CHR '','' \<in> set h
      then (case split_at (CHR '','') h of (a, b) \<Rightarrow>
              (case kst a of Inl e \<Rightarrow> Inl e | Inr CID \<Rightarrow>
                 (case kst b of Inl e \<Rightarrow> Inl e | Inr SID \<Rightarrow> Inr (CID, SID))))
      else (case kst h of Inl e \<Rightarrow> Inl e | Inr CID \<Rightarrow> Inr (CID, - 42)))"

definition message :: "(string \<Rightarrow> errno + int) \<Rightarrow> int \<Rightarrow> bytes \<Rightarrow> errno + (int \<times> int \<times> bytes)" where
  "message kst srv data =
     (if CHR '':'' \<notin> set (cstr data) then Inl EBADMSG
      else case split_at (CHR '':'') data of (h, body) \<Rightarrow>
        (case destination kst srv h of Inl e \<Rightarrow> Inl e | Inr (CID, SID) \<Rightarrow> Inr (CID, SID, body)))"

lemma split_at_append: "c \<notin> set h \<Longrightarrow> split_at c (h @ c # b) = (h, b)"
  by (induction h) (auto simp: split_at_def)

lemma cstr_member:
  assumes "c \<in> set (cstr data)"
  obtains h b where "data = h @ c # b" "c \<notin> set h" "NUL \<notin> set h"
proof -
  have c0: "c \<noteq> NUL" using assms NUL_notin_cstr by metis
  with assms have "strchr data c \<noteq> None" by (simp add: strchr_None_notin)
  then obtain i where i: "strchr data c = Some i" by blast
  note p = strchr_Some[OF i]
  then have "data = take i data @ c # drop (Suc i) data" by (metis id_take_nth_drop)
  with p that show thesis by blast
qed

lemma update_mid: "(h @ x # b)[length h := y] = h @ y # b"
  by simp

lemma parse_dest_destination:
  assumes "NUL \<notin> set h"
  shows "parse_dest kst (Some n) (h @ NUL # rest) = Some (destination kst (s32 (uint n)) h)"
proof -
  have c: "cstr (h @ NUL # rest) = h" using assms by simp
  have eq: "STREQ (h @ NUL # rest) x \<longleftrightarrow> h = x" if "NUL \<notin> set x" for x
    using that by (simp add: STREQ_def c)
  have names: "STREQ (h @ NUL # rest) ''server'' \<or> STREQ (h @ NUL # rest) ''switch'' \<or>
    STREQ (h @ NUL # rest) ''link'' \<or> STREQ (h @ NUL # rest) ''interface'' \<longleftrightarrow>
    h \<in> {''server'', ''switch'', ''link'', ''interface''}" by (simp add: eq)
  show ?thesis
  proof (cases "h \<in> {''server'', ''switch'', ''link'', ''interface''}")
    case True
    then show ?thesis
      unfolding parse_dest_def names destination_def by (simp add: GENZ_FEE_SID_CID_IS_PEER_ID_def)
  next
    case False
    show ?thesis
    proof (cases "CHR '','' \<in> set h")
      case True
      then obtain a b where h: "h = a @ CHR '','' # b" "CHR '','' \<notin> set a" using split_list_first by fast
      with assms have n: "NUL \<notin> set a" "NUL \<notin> set b" by auto
      have i: "strchr (h @ NUL # rest) (CHR '','') = Some (length a)"
        using strchr_append[of "CHR '',''" a "b @ NUL # rest"] h n by simp
      have "cstr ((h @ NUL # rest)[length a := NUL]) = a" "cstr (drop (Suc (length a)) (h @ NUL # rest)) = b"
        using n by (simp_all add: h)
      then show ?thesis
        using False True i h
        unfolding parse_dest_def names destination_def by (simp add: split_at_append split: sum.splits)
    next
      case False2: False
      then have "strchr (h @ NUL # rest) (CHR '','') = None" using c by (simp add: strchr_None_notin)
      then show ?thesis
        using False False2 c unfolding parse_dest_def names destination_def
        by (simp add: GENZ_FEE_SID_CID_IS_PEER_ID_def split: sum.splits)
    qed
  qed
qed

lemma no_colon:
  assumes "CHR '':'' \<notin> set (cstr data)"
  shows "strchr (data @ NUL # rest) (CHR '':'') = None"
  using assms by (simp add: strchr_None_notin cstr_padded)

section \<open>Lemmas: the attempts of a write\<close>

text \<open>While a write waits, nobody else touches the driver's buffers: they are under its mutex.\<close>

definition keeps_buffers :: "addr \<Rightarrow> fee_state \<Rightarrow> fee_state \<Rightarrow> bool" where
  "keeps_buffers ap s s' \<longleftrightarrow> map_option outgoing (adapters s' ap) = map_option outgoing (adapters s ap)"

definition buffers_kept :: "addr \<Rightarrow> wait_env \<Rightarrow> bool" where
  "buffers_kept ap env \<longleftrightarrow> (\<forall>k d s. keeps_buffers ap s (sleep env k d s))"

interpretation bufs: world_relation "buffers_kept ap" "keeps_buffers ap" for ap
  by unfold_locales (simp_all add: buffers_kept_def keeps_buffers_def)

definition write_world :: "(nat \<Rightarrow> wait_env) \<Rightarrow> addr \<Rightarrow> bool" where
  "write_world env ap \<longleftrightarrow> (\<forall>k. benign (env k) ap \<and> clock_runs (env k) \<and> buffers_kept ap (env k))"

text \<open>The message is out: it stands in the sender's slot and the addressee's doorbell rang last.\<close>

definition posted :: "addr \<Rightarrow> uint16 \<Rightarrow> uint32 \<Rightarrow> bytes \<Rightarrow> fee_state \<Rightarrow> bool" where
  "posted ap me peer body s \<longleftrightarrow> outbox s (unat me) = Some (unat peer, body) \<and>
     (\<exists>ds. doorbells s = ds @ [(ap, ringer (ucast peer) me)])"

lemma attempt:
  assumes "fee_inv s" "adapters s ap = Some A" "benign env ap" "clock_runs env" "buffers_kept ap env"
    and "send_error (glob s) CID SID len = None" "unat len \<le> length body"
  shows "\<exists>ret s'. FEE_create_outgoing env CID SID body len ap s = Some (ret, s') \<and> fee_inv s' \<and>
    keeps_adapter ap s s' \<and> keeps_buffers ap s s' \<and>
    (ret = err ERESTARTSYS \<and> outbox s' (unat (my_id A)) \<noteq> None \<or>
     ret = s32 (uint len) \<and> posted ap (my_id A) (dest_peer CID SID) (take (unat len) body) s')"
proof -
  obtain now s1 where w: "wait_hw_ready env ap (jiffies env 0 + PRIOR_RESP_WAIT env) 0 1 0 s = Some (now, s1)"
    and s1: "fee_inv s1" "keeps_adapter ap s s1"
    by (rule peers.wait_ends[OF conjI[OF assms(3,4)] assms(1,2)])
  have kb: "keeps_buffers ap s t" if "FEE_create_outgoing env CID SID body len ap s = Some (r, t)" for r t
    using bufs.create_rel[OF that assms(5,1,2)] .
  show ?thesis
    by (rule create_outgoing_waited[OF assms(1,2,6,7) w s1])
      (use kb s1 in \<open>cases "outbox s1 (unat (my_id A)) = None"; simp add: posted_def\<close>)
qed

lemma send_restart_outcome:
  assumes "fee_inv s" "adapters s ap = Some A" "write_world env ap"
    and "send_error (glob s) CID SID len = None" "unat len \<le> length body" "unat len < 2 ^ 31"
  shows "\<exists>ret s'. send_restart env CID SID body len sl ap k s = Some (ret, s') \<and> fee_inv s' \<and>
    keeps_adapter ap s s' \<and> keeps_buffers ap s s' \<and>
    (ret = err ETIMEDOUT \<and> outbox s' (unat (my_id A)) \<noteq> None \<or>
     ret = s32 (uint sl) \<and> posted ap (my_id A) (dest_peer CID SID) (take (unat len) body) s')"
  using assms(1,2,4)
proof (induction "2 - k" arbitrary: k s A rule: less_induct)
  case less
  have env: "benign (env k) ap" "clock_runs (env k)" "buffers_kept ap (env k)"
    using assms(3) by (simp_all add: write_world_def)
  have s32len: "s32 (uint len) = int (unat len)" using assms(6) by (simp add: s32_nonneg_id uint_nat del: of_nat_unat)
  from attempt[OF less.prems(1,2) env less.prems(3) assms(5)] obtain ret s1 where
    c: "FEE_create_outgoing (env k) CID SID body len ap s = Some (ret, s1)" "fee_inv s1"
      "keeps_adapter ap s s1" "keeps_buffers ap s s1"
    and r: "ret = err ERESTARTSYS \<and> outbox s1 (unat (my_id A)) \<noteq> None \<or>
     ret = s32 (uint len) \<and> posted ap (my_id A) (dest_peer CID SID) (take (unat len) body) s1" by blast
  obtain A1 where A1: "adapters s1 ap = Some A1" "my_id A1 = my_id A"
    and g: "glob s1 = glob s" using c(3) less.prems(2) by (auto simp: keeps_adapter_def)
  from r show ?case
  proof
    assume ok: "ret = s32 (uint len) \<and> posted ap (my_id A) (dest_peer CID SID) (take (unat len) body) s1"
    then have "0 \<le> ret" using s32len by simp
    then have "ret \<noteq> err ERESTARTSYS" using err_neg(2)[of ERESTARTSYS] by blast
    moreover have "word_of_int ret = len" using ok s32len by simp
    ultimately have "send_restart env CID SID body len sl ap k s = Some (s32 (uint sl), s1)"
      using c(1) by (subst send_restart.simps) simp
    then show ?thesis using c ok by blast
  next
    assume re: "ret = err ERESTARTSYS \<and> outbox s1 (unat (my_id A)) \<noteq> None"
    show ?thesis
    proof (cases "k < 2")
      case True
      then have eq: "send_restart env CID SID body len sl ap k s = send_restart env CID SID body len sl ap (Suc k) s1"
        using c(1) re by (subst send_restart.simps) simp
      have "2 - Suc k < 2 - k" using True by simp
      from less.hyps[OF this c(2) A1(1)] less.prems(3) g obtain ret' s' where
        "send_restart env CID SID body len sl ap (Suc k) s1 = Some (ret', s')" "fee_inv s'"
        "keeps_adapter ap s1 s'" "keeps_buffers ap s1 s'"
        "ret' = err ETIMEDOUT \<and> outbox s' (unat (my_id A1)) \<noteq> None \<or>
         ret' = s32 (uint sl) \<and> posted ap (my_id A1) (dest_peer CID SID) (take (unat len) body) s'" by metis
      then show ?thesis unfolding eq using keeps_adapter_trans[OF c(3)] bufs.trans[OF c(4)] A1(2) by metis
    next
      case False
      then have "send_restart env CID SID body len sl ap k s = Some (err ETIMEDOUT, s1)"
        using c(1) re by (subst send_restart.simps) simp
      then show ?thesis using c re by blast
    qed
  qed
qed

lemma small_negative_word:
  fixes len :: uint64
  assumes "- 512 \<le> x" "x < 0" "word_of_int x = len"
  shows "2 ^ 31 \<le> unat len"
proof -
  have "uint len = x mod 2 ^ 64" using assms(3) by (auto simp: uint_word_of_int)
  also have "\<dots> = (x + 2 ^ 64) mod 2 ^ 64" by simp
  also have "\<dots> = x + 2 ^ 64" using assms(1,2) by (intro mod_pos_pos_trivial) auto
  finally have "int (2 ^ 31) \<le> uint len" using assms(1) by simp
  then have "int (2 ^ 31) \<le> int (unat len)" by (simp only: uint_nat)
  then show ?thesis by (simp only: of_nat_le_iff)
qed

lemma send_restart_error:
  assumes "fee_inv s" "adapters s ap = Some A" "send_error (glob s) CID SID len = Some e" "unat len < 2 ^ 31"
  shows "send_restart env CID SID body len sl ap k s = Some (err e, s)"
proof -
  have "e \<noteq> ERESTARTSYS" using assms(3) by (auto simp: send_error_def split: if_splits)
  then have "errno_num e \<noteq> 512" by (cases e) simp_all
  moreover have "\<not> errno_num e \<le> 0" using errno_num_bounds(1)[of e] by simp
  moreover have "word_of_int (err e) \<noteq> len"
    using small_negative_word[of "err e" len] assms(4) errno_num_bounds[of e] err_neg(1)[of e] by linarith
  ultimately show ?thesis
    using create_outgoing_error[OF assms(1-3), of "env k" body] by (subst send_restart.simps) simp
qed

section \<open>Lemmas: write\<close>

text \<open>An adapter that is open: it has its buffer, and nobody holds the mutex.\<close>

definition bridge_opened :: "fee_state \<Rightarrow> addr \<Rightarrow> FEE_adapter \<Rightarrow> bridge_buffers \<Rightarrow> bool" where
  "bridge_opened s ap A B \<longleftrightarrow> adapters s ap = Some A \<and> outgoing A = Some B \<and> \<not> wbuf_mutex B \<and>
     length (wbuf B) = unat (max_buflen A)"

text \<open>The state of a write while it holds the mutex, with \<open>w\<close> in the buffer.\<close>

definition writing :: "addr \<Rightarrow> FEE_adapter \<Rightarrow> bridge_buffers \<Rightarrow> bytes \<Rightarrow> fee_state \<Rightarrow> fee_state" where
  "writing ap A B w s = wr_adapter ap (A\<lparr>outgoing := Some (B\<lparr>wbuf := w, wbuf_mutex := True\<rparr>)\<rparr>) s"

lemma writing_simps [simp]:
  "adapters (writing ap A B w s) = (adapters s)(ap \<mapsto> A\<lparr>outgoing := Some (B\<lparr>wbuf := w, wbuf_mutex := True\<rparr>)\<rparr>)"
  "glob (writing ap A B w s) = glob s" "outbox (writing ap A B w s) = outbox s"
  "doorbells (writing ap A B w s) = doorbells s"
  "set_outgoing ap w' True (writing ap A B w s) = Some (writing ap A B w' s)"
  by (simp_all add: writing_def set_outgoing_def) (simp_all add: wr_adapter_def)

lemma outgoing_upd_inv:
  assumes "fee_inv s" "adapters s ap = Some A"
  shows "fee_inv (wr_adapter ap (A\<lparr>outgoing := b\<rparr>) s)"
proof (rule fee_inv_adapter_upd[OF assms(1)])
  show "ap \<noteq> NULL" using assms by (auto simp: fee_inv_def)
  show "adapter_ok (glob s) (A\<lparr>outgoing := b\<rparr>)" using fee_inv_adapter[OF assms] by (simp add: adapter_ok_def)
qed

lemma writing_inv: "fee_inv s \<Longrightarrow> adapters s ap = Some A \<Longrightarrow> fee_inv (writing ap A B w s)"
  unfolding writing_def by (rule outgoing_upd_inv)

lemma unlock_return_ok:
  assumes "fee_inv s" "adapters s ap = Some A" "outgoing A = Some B" "length (wbuf B) = unat (max_buflen A)"
  shows "\<exists>s' A' B'. unlock_return ap ret s = Some (ret, s') \<and> fee_inv s' \<and> bridge_opened s' ap A' B' \<and>
    glob s' = glob s \<and> outbox s' = outbox s \<and> doorbells s' = doorbells s"
proof -
  let ?A = "A\<lparr>outgoing := Some (B\<lparr>wbuf_mutex := False\<rparr>)\<rparr>"
  have "unlock_return ap ret s = Some (ret, wr_adapter ap ?A s)"
    using assms(2,3) by (simp add: unlock_return_def set_outgoing_def)
  moreover have "fee_inv (wr_adapter ap ?A s)" using outgoing_upd_inv[OF assms(1,2)] .
  moreover have "bridge_opened (wr_adapter ap ?A s) ap ?A (B\<lparr>wbuf_mutex := False\<rparr>)"
    using assms(4) by (simp add: bridge_opened_def wr_adapter_def)
  moreover have "glob (wr_adapter ap ?A s) = glob s" "doorbells (wr_adapter ap ?A s) = doorbells s"
    by (simp_all add: wr_adapter_def)
  ultimately show ?thesis by fastforce
qed

text \<open>The function after the copy, on a buffer that starts with the data and its terminator.\<close>

definition write_body ::
  "(string \<Rightarrow> errno + int) \<Rightarrow> (nat \<Rightarrow> wait_env) \<Rightarrow> addr \<Rightarrow> FEE_adapter \<Rightarrow> bytes \<Rightarrow> uint64 \<Rightarrow> fee_state \<Rightarrow>
   (int \<times> fee_state) option" where
  "write_body kst env ap A w len s =
     (case strchr w (CHR '':'') of
        None \<Rightarrow> do { s \<leftarrow> set_outgoing ap w True s; unlock_return ap (err EBADMSG) s }
      | Some i \<Rightarrow> do {
          dest \<leftarrow> parse_dest kst (map_option server_id (rd_globals s A)) (w[i := NUL]);
          s \<leftarrow> set_outgoing ap (chop_comma (w[i := NUL])) True s;
          case dest of
            Inl e \<Rightarrow> unlock_return ap (err e) s
          | Inr (CID, SID) \<Rightarrow> do {
              (ret, s) \<leftarrow> send_restart env CID SID (drop (Suc i) (w[i := NUL])) (len - of_nat (Suc i)) len ap 0 s;
              unlock_return ap ret s
            }
        })"

lemma write_limit:
  fixes m len :: uint64
  assumes "0 < unat m"
  shows "len \<ge> m - 1 \<longleftrightarrow> unat m \<le> Suc (unat len)"
proof -
  have "unat (m - 1) = unat m - 1" using assms by (intro unat_minus_one) (auto simp: unat_gt_0)
  then show ?thesis by (auto simp: word_le_nat_alt)
qed

lemma chop_comma_length [simp]: "length (chop_comma w) = length w"
  by (simp add: chop_comma_def split: option.splits)

context user_copy
begin

lemma write_start:
  assumes "bridge_opened s (private_data file) A B" "unat len \<le> length u" "Suc (unat len) < unat (max_buflen A)"
  shows "\<exists>w. gf_bridge_write copy_from_user kst env file u len s =
      write_body kst env (private_data file) A w len (writing (private_data file) A B (wbuf B) s) \<and>
    length w = unat (max_buflen A) \<and> (\<exists>r. w = take (unat len) u @ NUL # r)"
proof -
  have b: "adapters s (private_data file) = Some A" "outgoing A = Some B" "\<not> wbuf_mutex B"
    "length (wbuf B) = unat (max_buflen A)" using assms(1) by (simp_all add: bridge_opened_def)
  have l: "unat len < unat (max_buflen A)" "\<not> len \<ge> max_buflen A - 1"
    using assms(3) write_limit[of "max_buflen A" len] by simp_all
  define w where "w = take (unat len) u @ NUL # drop (Suc (unat len)) (wbuf B)"
  have c: "copy_from_user (wbuf B) u (unat len) = (0, take (unat len) u @ drop (unat len) (wbuf B))"
    using from_ok[of "unat len" "wbuf B" u] l(1) b(4) assms(2) by simp
  have st: "store_at (take (unat len) u @ drop (unat len) (wbuf B)) (unat len) [NUL] = Some w"
    using l(1) b(4) assms(2) by (simp add: store_at_def w_def min_absorb2)
  have "gf_bridge_write copy_from_user kst env file u len s =
      write_body kst env (private_data file) A w len (writing (private_data file) A B (wbuf B) s)"
  proof -
    have "set_outgoing (private_data file) (wbuf B) True s = Some (writing (private_data file) A B (wbuf B) s)"
      using b by (simp add: set_outgoing_def writing_def)
    then show ?thesis
      unfolding gf_bridge_write_def write_body_def
      by (simp only: b l(2) c st if_False bind.simps(2) Let_def prod.case simp_thms)
  qed
  moreover have "length w = unat (max_buflen A)" using l(1) b(4) assms(2) by (simp add: w_def min_absorb2)
  ultimately show ?thesis unfolding w_def by blast
qed

lemma write_faults:
  assumes "bridge_opened s (private_data file) A B" "length u < unat len" "Suc (unat len) < unat (max_buflen A)"
  shows "\<exists>w. gf_bridge_write copy_from_user kst env file u len s =
      unlock_return (private_data file) (err EFAULT) (writing (private_data file) A B w s) \<and> length w = unat (max_buflen A)"
proof -
  have b: "adapters s (private_data file) = Some A" "outgoing A = Some B" "\<not> wbuf_mutex B"
    "length (wbuf B) = unat (max_buflen A)" using assms(1) by (simp_all add: bridge_opened_def)
  have l: "unat len < length (wbuf B)" "\<not> len \<ge> max_buflen A - 1"
    using assms(3) write_limit[of "max_buflen A" len] b(4) by simp_all
  obtain r w where c: "copy_from_user (wbuf B) u (unat len) = (r, w)" by (cases "copy_from_user (wbuf B) u (unat len)")
  have r: "r \<noteq> 0" "0 < r" "length w = length (wbuf B)"
    using from_fault[OF _ assms(2), of "wbuf B"] from_len[of "unat len" "wbuf B" u] c l(1) by simp_all
  have "set_outgoing (private_data file) (wbuf B) True s = Some (writing (private_data file) A B (wbuf B) s)"
    using b by (simp add: set_outgoing_def writing_def)
  then have "gf_bridge_write copy_from_user kst env file u len s =
      unlock_return (private_data file) (err EFAULT) (writing (private_data file) A B w s)"
    unfolding gf_bridge_write_def
    by (simp only: b l(2) c r(1,2) if_False if_True bind.simps(2) Let_def prod.case simp_thms writing_simps(5))
  then show ?thesis using r(3) b(4) by auto
qed

end

text \<open>What a write reports for a message, and what it leaves in the mailbox.\<close>

definition write_result ::
  "addr \<Rightarrow> uint16 \<Rightarrow> uint64 \<Rightarrow> errno + (int \<times> int \<times> bytes) \<Rightarrow> fee_state \<Rightarrow> int \<Rightarrow> fee_state \<Rightarrow> bool" where
  "write_result ap me len msg s ret s' \<longleftrightarrow>
     (case msg of
        Inl e \<Rightarrow> ret = err e \<and> outbox s' = outbox s \<and> doorbells s' = doorbells s
      | Inr (CID, SID, body) \<Rightarrow>
          (case send_error (glob s) CID SID (of_nat (length body)) of
             Some e \<Rightarrow> ret = err e \<and> outbox s' = outbox s \<and> doorbells s' = doorbells s
           | None \<Rightarrow>
               (ret = err ETIMEDOUT \<and> outbox s (unat me) \<noteq> None \<and> outbox s' (unat me) \<noteq> None \<or>
                ret = int (unat len) \<and> posted ap me (dest_peer CID SID) body s') \<and>
               (outbox s (unat me) = None \<longrightarrow>
                  outbox s' = (outbox s)(unat me \<mapsto> (unat (dest_peer CID SID), body)) \<and>
                  doorbells s' = doorbells s @ [(ap, ringer (ucast (dest_peer CID SID)) me)])))"

lemma send_restart_idle:
  assumes "fee_inv s" "adapters s ap = Some A" "outbox s (unat (my_id A)) = None"
    and "send_error (glob s) CID SID len = None" "unat len \<le> length body" "unat len < 2 ^ 31"
  shows "send_restart env CID SID body len sl ap k s =
    Some (s32 (uint sl), sent ap A (dest_peer CID SID) body len
      (note_longest (jiffies (env k) 0 + PRIOR_RESP_WAIT (env k)) s))"
proof -
  have s32len: "s32 (uint len) = int (unat len)" using assms(6) by (simp add: s32_nonneg_id uint_nat del: of_nat_unat)
  define r where "r = s32 (uint len)"
  have "0 \<le> r" "word_of_int r = len" using s32len by (simp_all add: r_def)
  then have "r \<noteq> err ERESTARTSYS" using err_neg(2)[of ERESTARTSYS] by metis
  then show ?thesis
    using create_outgoing_idle[OF assms(1-5), of "env k"] \<open>word_of_int r = len\<close>
    by (subst send_restart.simps) (simp add: r_def[symmetric])
qed

lemma send_result:
  assumes "fee_inv s" "adapters s ap = Some A" "write_world env ap" "unat len < 2 ^ 31"
    and "length body < 2 ^ 31" "length body \<le> length rest" "take (length body) rest = body"
  shows "\<exists>ret s'. send_restart env CID SID rest (of_nat (length body)) len ap 0 s = Some (ret, s') \<and> fee_inv s' \<and>
    keeps_adapter ap s s' \<and> keeps_buffers ap s s' \<and> write_result ap (my_id A) len (Inr (CID, SID, body)) s ret s'"
proof -
  let ?n = "of_nat (length body) :: uint64"
  have n: "unat ?n = length body" using assms(5) by (simp add: unat_of_nat)
  have l: "s32 (uint len) = int (unat len)" using assms(4) by (simp add: s32_nonneg_id uint_nat del: of_nat_unat)
  show ?thesis
  proof (cases "send_error (glob s) CID SID ?n")
    case (Some e)
    have kb: "keeps_buffers ap s s" by (rule bufs.refl)
    from Some send_restart_error[OF assms(1,2) Some, where sl = len and k = 0] n assms(1,5) kb show ?thesis
      by (auto simp: write_result_def)
  next
    case None
    note o = send_restart_outcome[OF assms(1,2,3) None, where sl = len and k = 0 and body = rest]
    show ?thesis
    proof (cases "outbox s (unat (my_id A)) = None")
      case True
      define s2 where "s2 = note_longest (jiffies (env 0) 0 + PRIOR_RESP_WAIT (env 0)) s"
      define s' where "s' = sent ap A (dest_peer CID SID) rest ?n s2"
      have s2: "fee_inv s2" "adapters s2 ap = Some A" "outbox s2 = outbox s" "doorbells s2 = doorbells s"
        using assms(1,2) by (simp_all add: s2_def) (simp add: note_longest_def)
      have eq: "send_restart env CID SID rest ?n len ap 0 s = Some (int (unat len), s')"
        using send_restart_idle[OF assms(1,2) True None, where sl = len] assms(5,6) n l
        by (simp add: s'_def s2_def del: of_nat_unat)
      have ob: "outbox s' = (outbox s)(unat (my_id A) \<mapsto> (unat (dest_peer CID SID), body))"
        using sent_outbox[OF s2(1,2) send_error_None(2)[OF None], of rest] n assms(6,7) s2(3) by (simp add: s'_def)
      have "doorbells s' = doorbells s @ [(ap, ringer (ucast (dest_peer CID SID)) (my_id A))]"
        using s2(4) by (simp add: s'_def)
      with ob have "write_result ap (my_id A) len (Inr (CID, SID, body)) s (int (unat len)) s'"
        using None by (simp add: write_result_def posted_def)
      with o eq show ?thesis using assms(5,6) n by auto
    next
      case False
      with o None show ?thesis using assms(5-7) n l by (auto simp: write_result_def simp del: of_nat_unat)
    qed
  qed
qed

lemma opened_after_send:
  assumes "keeps_adapter ap (writing ap A B w s) t" "keeps_buffers ap (writing ap A B w s) t"
    and "length w = unat (max_buflen A)"
  shows "\<exists>A' B'. adapters t ap = Some A' \<and> outgoing A' = Some B' \<and> length (wbuf B') = unat (max_buflen A')"
proof -
  from assms(1) obtain A' where A': "adapters t ap = Some A'" "max_buflen A' = max_buflen A"
    by (auto simp: keeps_adapter_def)
  with assms(2) have "outgoing A' = Some (B\<lparr>wbuf := w, wbuf_mutex := True\<rparr>)" by (simp add: keeps_buffers_def)
  with A' assms(3) show ?thesis by simp
qed

lemma write_result_frame:
  assumes "write_result ap me len msg t ret t'" "outbox t = outbox s" "doorbells t = doorbells s" "glob t = glob s"
    and "outbox s' = outbox t'" "doorbells s' = doorbells t'"
  shows "write_result ap me len msg s ret s'"
  using assms by (simp add: write_result_def posted_def split: sum.splits prod.splits option.splits)

lemma message_colon:
  assumes "data = h @ CHR '':'' # body" "CHR '':'' \<notin> set h" "NUL \<notin> set h"
  shows "message kst srv data =
    (case destination kst srv h of Inl e \<Rightarrow> Inl e | Inr (CID, SID) \<Rightarrow> Inr (CID, SID, body))"
proof -
  have "cstr data = h @ CHR '':'' # cstr body"
    using assms(3) unfolding cstr_def assms(1) by (induction h) auto
  then show ?thesis using assms(1,2) by (simp add: message_def split_at_append)
qed

lemma write_body_colon:
  assumes "fee_inv s" "adapters s ap = Some A" "data = h @ CHR '':'' # body" "CHR '':'' \<notin> set h" "NUL \<notin> set h"
    and "length data = unat len"
  shows "\<exists>v. length v = length (data @ NUL # r) \<and>
    write_body kst env ap A (data @ NUL # r) len (writing ap A B w0 s) =
      (case destination kst (s32 (uint (server_id (glob s)))) h of
         Inl e \<Rightarrow> unlock_return ap (err e) (writing ap A B v s)
       | Inr (CID, SID) \<Rightarrow> do {
           (ret, s) \<leftarrow> send_restart env CID SID (body @ NUL # r) (of_nat (length body)) len ap 0 (writing ap A B v s);
           unlock_return ap ret s })"
proof -
  define w1 where "w1 = h @ NUL # body @ NUL # r"
  have i: "strchr (data @ NUL # r) (CHR '':'') = Some (length h)" "(data @ NUL # r)[length h := NUL] = w1"
    using strchr_append[OF assms(4,5)] by (simp_all add: assms(3) w1_def)
  have dest: "parse_dest kst (Some (server_id (glob s))) w1 = Some (destination kst (s32 (uint (server_id (glob s)))) h)"
    unfolding w1_def by (rule parse_dest_destination[OF assms(5)])
  have G: "rd_globals (writing ap A B w0 s) A = Some (glob s)"
    using adapter_ok_globals[OF fee_inv_adapter[OF assms(1,2)]] by (simp add: rd_globals_def)
  have n: "unat len = length body + Suc (length h)" using assms(6,3) by simp
  have "of_nat (unat len) = len" by simp
  then have "len = of_nat (length body + Suc (length h))" unfolding n by (rule sym)
  then have len: "len - of_nat (Suc (length h)) = of_nat (length body)" by simp
  have dr: "drop (Suc (length h)) w1 = body @ NUL # r" by (simp add: w1_def)
  have "length (chop_comma w1) = length (data @ NUL # r)" by (simp add: w1_def assms(3))
  then show ?thesis
    unfolding write_body_def
    by (intro exI[of _ "chop_comma w1"] conjI)
      (simp_all only: i option.case G dest bind.simps(2) option.map writing_simps(5) len dr)
qed

text \<open>The two ways a write ends with the buffer locked: at once, and after a send.\<close>

lemma unlock_writing:
  assumes "fee_inv s" "adapters s ap = Some A" "length v = unat (max_buflen A)"
  shows "\<exists>s' A' B'. unlock_return ap ret (writing ap A B v s) = Some (ret, s') \<and> fee_inv s' \<and>
    bridge_opened s' ap A' B' \<and> outbox s' = outbox s \<and> doorbells s' = doorbells s"
  using unlock_return_ok[OF writing_inv[OF assms(1,2), where B = B and w = v], where ap = ap and
      A = "A\<lparr>outgoing := Some (B\<lparr>wbuf := v, wbuf_mutex := True\<rparr>)\<rparr>"
      and B = "B\<lparr>wbuf := v, wbuf_mutex := True\<rparr>" and ret = ret] assms(3) by auto

lemma send_writing:
  assumes "fee_inv s" "adapters s ap = Some A" "length v = unat (max_buflen A)"
    and "length body < 2 ^ 31" "unat len < 2 ^ 31" "write_world env ap"
  shows "\<exists>ret s' A' B'. do {
      (ret, s) \<leftarrow> send_restart env CID SID (body @ rest) (of_nat (length body)) len ap 0 (writing ap A B v s);
      unlock_return ap ret s } = Some (ret, s') \<and> fee_inv s' \<and> bridge_opened s' ap A' B' \<and>
    write_result ap (my_id A) len (Inr (CID, SID, body)) s ret s'"
proof -
  let ?s = "writing ap A B v s"
  have iw: "fee_inv ?s" using writing_inv[OF assms(1,2)] .
  from send_result[OF iw, where ap = ap and A = "A\<lparr>outgoing := Some (B\<lparr>wbuf := v, wbuf_mutex := True\<rparr>)\<rparr>" and env = env
      and len = len and body = body and rest = "body @ rest" and CID = CID and SID = SID] assms(4-6)
  obtain ret t where t: "send_restart env CID SID (body @ rest) (of_nat (length body)) len ap 0 ?s = Some (ret, t)"
    "fee_inv t" "keeps_adapter ap ?s t" "keeps_buffers ap ?s t"
    "write_result ap (my_id A) len (Inr (CID, SID, body)) ?s ret t" by auto
  obtain A' B' where "adapters t ap = Some A'" "outgoing A' = Some B'" "length (wbuf B') = unat (max_buflen A')"
    using opened_after_send[OF t(3,4)] assms(3) by auto
  from unlock_return_ok[OF t(2) this, of ret] obtain s' A2 B2 where u: "unlock_return ap ret t = Some (ret, s')"
    "fee_inv s'" "bridge_opened s' ap A2 B2" "outbox s' = outbox t" "doorbells s' = doorbells t" by blast
  then show ?thesis using t(1) write_result_frame[OF t(5) _ _ _ u(4,5)] by auto
qed

lemma write_body_outcome:
  assumes "fee_inv s" "adapters s ap = Some A" "w = data @ NUL # r" "length w = unat (max_buflen A)"
    and "length data = unat len" "unat len < 2 ^ 31" "write_world env ap"
  shows "\<exists>ret s' A' B'. write_body kst env ap A w len (writing ap A B w0 s) = Some (ret, s') \<and> fee_inv s' \<and>
    bridge_opened s' ap A' B' \<and>
    write_result ap (my_id A) len (message kst (s32 (uint (server_id (glob s)))) data) s ret s'"
proof -
  let ?msg = "message kst (s32 (uint (server_id (glob s)))) data"
  show ?thesis
  proof (cases "CHR '':'' \<in> set (cstr data)")
    case False
    then have "write_body kst env ap A w len (writing ap A B w0 s) = unlock_return ap (err EBADMSG) (writing ap A B w s)"
      using no_colon[OF False, of r] assms(3) by (simp add: write_body_def del: bind_eq_Some)
    moreover have "?msg = Inl EBADMSG" using False by (simp add: message_def)
    ultimately show ?thesis using unlock_writing[OF assms(1,2,4), of "err EBADMSG" B] by (auto simp: write_result_def)
  next
    case True
    then obtain h body where d: "data = h @ CHR '':'' # body" "CHR '':'' \<notin> set h" "NUL \<notin> set h" by (rule cstr_member)
    obtain v where "length v = length w" and body: "write_body kst env ap A w len (writing ap A B w0 s) =
      (case destination kst (s32 (uint (server_id (glob s)))) h of
         Inl e \<Rightarrow> unlock_return ap (err e) (writing ap A B v s)
       | Inr (CID, SID) \<Rightarrow> do {
           (ret, s) \<leftarrow> send_restart env CID SID (body @ NUL # r) (of_nat (length body)) len ap 0 (writing ap A B v s);
           unlock_return ap ret s })"
      using write_body_colon[OF assms(1,2) d assms(5)] unfolding assms(3) by blast
    with assms(4) have v: "length v = unat (max_buflen A)" by simp
    show ?thesis
    proof (cases "destination kst (s32 (uint (server_id (glob s)))) h")
      case (Inl e)
      then show ?thesis
        using body message_colon[OF d] unlock_writing[OF assms(1,2) v, of "err e" B] by (auto simp: write_result_def)
    next
      case (Inr cs)
      obtain CID SID where cs: "cs = (CID, SID)" by (cases cs)
      have "length body < 2 ^ 31" using assms(5,6) d(1) by simp
      then show ?thesis
        using send_writing[OF assms(1,2) v _ assms(6,7), of body CID SID "NUL # r" B] message_colon[OF d] body Inr cs by simp
    qed
  qed
qed

section \<open>Properties\<close>

text \<open>C5: a write always returns, with the invariant kept, the buffer in place and its mutex free. A message as
  long as the payload less one byte or longer is \<open>E2BIG\<close>; one the user's memory does not hold is \<open>EFAULT\<close>;
  otherwise the text is split at its first colon, and the result is the parser's or the sender's error with the
  mailbox untouched, or the full length with the text behind the colon posted to the destination in front of it,
  or \<open>ETIMEDOUT\<close> when an earlier message was never taken. A free slot is used at once.\<close>

theorem bridge_write_outcome:
  assumes "user_copy ctu cfu" "fee_inv s" "bridge_opened s (private_data file) A B"
    and "write_world env (private_data file)" "payload_size (glob s) \<le> 2 ^ 31"
  shows "\<exists>ret s' A' B'. gf_bridge_write cfu kst env file u len s = Some (ret, s') \<and> fee_inv s' \<and>
    bridge_opened s' (private_data file) A' B' \<and>
    (if payload_size (glob s) \<le> Suc (unat len) then ret = err E2BIG \<and> s' = s
     else if length u < unat len then ret = err EFAULT \<and> outbox s' = outbox s \<and> doorbells s' = doorbells s
     else write_result (private_data file) (my_id A) len
            (message kst (s32 (uint (server_id (glob s)))) (take (unat len) u)) s ret s')"
proof -
  let ?ap = "private_data file"
  have b: "adapters s ?ap = Some A" "outgoing A = Some B" "\<not> wbuf_mutex B" "length (wbuf B) = unat (max_buflen A)"
    using assms(3) by (simp_all add: bridge_opened_def)
  have m: "unat (max_buflen A) = payload_size (glob s)" "0 < unat (max_buflen A)"
    using max_buflen_unat[OF fee_inv_globals[OF assms(2)] fee_inv_adapter[OF assms(2) b(1)]]
      payload_size_pos[OF fee_inv_globals[OF assms(2)]] by simp_all
  show ?thesis
  proof (cases "payload_size (glob s) \<le> Suc (unat len)")
    case True
    then show ?thesis using write_limit[OF m(2), of len] m b assms(2,3) by (intro exI[of _ "err E2BIG"] exI[of _ s]) (auto simp: gf_bridge_write_def)
  next
    case False
    then have l: "Suc (unat len) < unat (max_buflen A)" "unat len < 2 ^ 31" using m assms(5) by simp_all
    show ?thesis
    proof (cases "length u < unat len")
      case True
      obtain w where w: "gf_bridge_write cfu kst env file u len s = unlock_return ?ap (err EFAULT) (writing ?ap A B w s)"
        "length w = unat (max_buflen A)" using user_copy.write_faults[OF assms(1,3) True l(1), of kst env] by blast
      from unlock_writing[OF assms(2) b(1) w(2), of "err EFAULT" B] w(1) False True show ?thesis by auto
    next
      case short: False
      then obtain w v where w: "gf_bridge_write cfu kst env file u len s =
          write_body kst env ?ap A w len (writing ?ap A B (wbuf B) s)" "length w = unat (max_buflen A)"
        "w = take (unat len) u @ NUL # v"
        using user_copy.write_start[OF assms(1,3) _ l(1), of u kst env] by auto
      have "length (take (unat len) u) = unat len" using short by simp
      from write_body_outcome[OF assms(2) b(1) w(3,2) this l(2) assms(4), of kst B "wbuf B"] False short w(1)
      show ?thesis by auto
    qed
  qed
qed

text \<open>C15: the parser in the write buffer is the split of the text. Looking for the colon, overwriting it, comparing with the
  four names, looking for the comma and calling \<open>kstrtoint\<close> on both sides, all in place on the bytes copied from the
  user and whatever follows them in the buffer, gives the same destination, the same body and the same error as the
  reference on the text alone.\<close>

theorem write_parser_reference:
  "(case strchr (data @ NUL # rest) (CHR '':'') of
      None \<Rightarrow> Some (Inl EBADMSG)
    | Some i \<Rightarrow> map_option (map_sum id (\<lambda>(CID, SID). (CID, SID, drop (Suc i) data)))
        (parse_dest kst (Some srv) ((data @ NUL # rest)[i := NUL])))
   = Some (message kst (s32 (uint srv)) data)"
proof (cases "CHR '':'' \<in> set (cstr data)")
  case True
  then obtain h body where d: "data = h @ CHR '':'' # body" "CHR '':'' \<notin> set h" "NUL \<notin> set h" by (rule cstr_member)
  have "strchr (data @ NUL # rest) (CHR '':'') = Some (length h)" using strchr_append[OF d(2,3)] by (simp add: d(1))
  moreover have "(data @ NUL # rest)[length h := NUL] = h @ NUL # body @ NUL # rest" by (simp add: d(1))
  moreover have "drop (Suc (length h)) data = body" by (simp add: d(1))
  ultimately show ?thesis
    using parse_dest_destination[OF d(3)] message_colon[OF d] by (simp split: sum.split)
next
  case False
  then show ?thesis using no_colon[OF False] by (simp add: message_def)
qed

text \<open>The adapter of the examples, open, and a file on it.\<close>

definition open_buffers :: bridge_buffers where
  "open_buffers = \<lparr>bb_ptr = 0xC400, wbuf_ptr = 0xC500, wbuf = replicate 384 NUL, wbuf_mutex = False\<rparr>"

definition open_adapter :: FEE_adapter where
  "open_adapter = example_adapter\<lparr>nr_users := 1, outgoing := Some open_buffers\<rparr>"

definition open_state :: fee_state where
  "open_state = wr_adapter 0xA000 open_adapter example_state"

definition example_file :: bridge_file where
  "example_file = \<lparr>private_data = 0xA000, f_container = 0x4000, f_count = 1, f_nonblock = True, f_pos = 7\<rparr>"

lemma open_state_inv: "fee_inv open_state"
  unfolding open_state_def
proof (rule fee_inv_adapter_upd[OF example_state_inv])
  show "adapter_ok (glob example_state) open_adapter"
    using fee_inv_adapter[OF example_state_inv, of "0xA000" example_adapter]
    by (simp add: example_list adapter_ok_def open_adapter_def)
qed simp

lemma open_state_opened: "bridge_opened open_state (private_data example_file) open_adapter open_buffers"
  by (simp add: bridge_opened_def open_state_def example_file_def wr_adapter_def)
    (simp add: open_adapter_def open_buffers_def example_adapter_def)

lemma open_state_simps:
  "glob open_state = example_globals" "outbox open_state 3 = None" "doorbells open_state = []" "my_id open_adapter = 3"
  "private_data example_file = 0xA000" "payload_size example_globals = 384" "server_id example_globals = 15"
proof -
  show "outbox open_state 3 = None" "doorbells open_state = []" by code_simp+
qed (simp_all add: open_state_def wr_adapter_def example_state_def open_adapter_def example_adapter_def example_file_def
    payload_size_def example_globals_def)

lemma example_world: "write_world (\<lambda>_. example_env) ap"
  using example_env_benign example_env_clock
  by (simp add: write_world_def buffers_kept_def keeps_buffers_def) (simp add: example_env_def)

lemma example_numbers: "kstrtoint0 ''500'' = Inr 500" "kstrtoint0 ''27'' = Inr 27"
proof -
  have "show_int 500 = ''500''" "show_int 27 = ''27''" by code_simp+
  with kp.parse_decimal[of 500] kp.parse_decimal[of 27]
  show "kstrtoint0 ''500'' = Inr 500" "kstrtoint0 ''27'' = Inr 27" by (simp_all add: int32_range_def)
qed

theorem bridge_write_outcome_witness:
  "\<exists>s'. gf_bridge_write copy_from_user0 kstrtoint0 (\<lambda>_. example_env) example_file ''500,27:hello'' 12 open_state =
      Some (12, s') \<and> fee_inv s' \<and> outbox s' = (outbox open_state)(3 \<mapsto> (5, ''hello'')) \<and>
    doorbells s' = [(0xA000, ringer 5 3)]"
proof -
  have m: "message kstrtoint0 (s32 (uint (15 :: uint64))) (take (unat (12 :: uint64)) ''500,27:hello'') =
      Inr (500, 27, ''hello'')" by (simp add: message_def destination_def split_at_def cstr_def example_numbers)
  have e: "send_error example_globals 500 27 (of_nat (length ''hello'')) = None" "dest_peer 500 27 = 5" by code_simp+
  have l: "\<not> 384 \<le> Suc (unat (12 :: uint64))" "\<not> length ''500,27:hello'' < unat (12 :: uint64)" by simp_all
  have p: "payload_size (glob open_state) \<le> 2 ^ 31" by (simp add: open_state_simps)
  obtain ret s' where w: "gf_bridge_write copy_from_user0 kstrtoint0 (\<lambda>_. example_env) example_file ''500,27:hello'' 12
      open_state = Some (ret, s')" "fee_inv s'"
    and r: "write_result 0xA000 3 12 (Inr (500, 27, ''hello'')) open_state ret s'"
    using bridge_write_outcome[OF cu.user_copy_axioms open_state_inv open_state_opened example_world p,
        where kst = kstrtoint0 and u = "''500,27:hello''" and len = 12]
    unfolding open_state_simps m using l by (simp only: if_False) blast
  from r show ?thesis
    using w unfolding write_result_def sum.case prod.case open_state_simps e option.case
    by (auto simp: open_state_simps posted_def)
qed

text \<open>C14: a read with a message waiting hands out \<open>CID,SID:\<close> and the text, and returns their length, if the user's
  memory holds them; it is \<open>E2BIG\<close> if the buffer is more than one byte too short, and \<open>EFAULT\<close> if the memory is.
  The message is gone from the mailbox in every case, read or not. A buffer that is exactly one byte too short
  passes the check. With no message a nonblocking read is \<open>EAGAIN\<close> and changes nothing.\<close>

theorem bridge_read_outcome:
  assumes "user_copy ctu cfu" "fee_inv s" "adapters s (private_data file) = Some A" "\<not> incoming_slot_lock A"
  shows "(incoming_slot A = NULL \<and> f_nonblock file \<longrightarrow>
      gf_bridge_read ctu wait_event file u len s = Some (err EAGAIN, u, file, s)) \<and>
    (\<forall>n m. valid_id (glob s) n \<and> incoming_slot A = globals A + slot_off (glob s) n \<and>
        m = mail s (slot_off (glob s) n) \<and> length (sender_field m) \<le> 30 \<longrightarrow>
      (\<exists>ret u' file' s'. gf_bridge_read ctu wait_event file u len s = Some (ret, u', file', s') \<and> fee_inv s' \<and>
         outbox s' = (outbox s)(n := None) \<and> length u' = length u \<and>
         (if Suc (unat len) < length (read_text m) then ret = err E2BIG \<and> u' = u
          else if length (read_text m) \<le> length u
          then ret = s32 (int (length (read_text m))) \<and> u' = read_text m @ drop (length (read_text m)) u
          else ret = err EFAULT)))"
proof (intro conjI allI impI)
  assume "incoming_slot A = NULL \<and> f_nonblock file"
  then show "gf_bridge_read ctu wait_event file u len s = Some (err EAGAIN, u, file, s)"
    using assms(3) by (simp add: gf_bridge_read_def FEE_await_incoming_def)
next
  fix n m
  assume h: "valid_id (glob s) n \<and> incoming_slot A = globals A + slot_off (glob s) n \<and>
        m = mail s (slot_off (glob s) n) \<and> length (sender_field m) \<le> 30"
  let ?ap = "private_data file"
  have sz: "unat (buflen m) + 160 < 2 ^ 64" "unat (buflen m) \<le> length (buf m)"
    using slot_sizes[OF assms(2)] h by blast+
  have tot: "length (read_text m) = length (sender_field m) + unat (buflen m)"
    using sz(2) by (simp add: read_text_def min_absorb2)
  have rel: "fee_inv (released ?ap A n s)" "outbox (released ?ap A n s) = (outbox s)(n := None)"
    using released_inv[OF assms(2,3)] released_outbox[OF fee_inv_globals[OF assms(2)]] h by blast+
  have rd: "gf_bridge_read ctu wait_event file u len s =
      Some (ret, u', if ret > 0 then file\<lparr>f_pos := 0\<rparr> else file, released ?ap A n s)"
    if "read_copy ctu m u len = Some (ret, u')" for ret u'
    using read_waiting[OF assms(2-4)] h that by blast
  show "\<exists>ret u' file' s'. gf_bridge_read ctu wait_event file u len s = Some (ret, u', file', s') \<and> fee_inv s' \<and>
         outbox s' = (outbox s)(n := None) \<and> length u' = length u \<and>
         (if Suc (unat len) < length (read_text m) then ret = err E2BIG \<and> u' = u
          else if length (read_text m) \<le> length u
          then ret = s32 (int (length (read_text m))) \<and> u' = read_text m @ drop (length (read_text m)) u
          else ret = err EFAULT)"
  proof (cases "Suc (unat len) < length (read_text m)")
    case True
    then have "read_copy ctu m u len = Some (err E2BIG, u)"
      using user_copy.read_copy_small[OF assms(1) sz(1)] tot by (simp add: add.commute)
    from rd[OF this] True rel show ?thesis by auto
  next
    case False
    then obtain u' where "read_copy ctu m u len =
      Some (if length (read_text m) \<le> length u then s32 (int (length (read_text m))) else err EFAULT, u')"
      "length u' = length u" "length (read_text m) \<le> length u \<longrightarrow> u' = read_text m @ drop (length (read_text m)) u"
      using user_copy.read_copy_fits[OF assms(1) sz(1) _ sz(2), of len u] h by auto
    with rd False rel show ?thesis by auto
  qed
qed

text \<open>The message \<open>hello\<close> of client 5 waits at the adapter.\<close>

definition waiting_state :: fee_state where
  "waiting_state = wr_adapter 0xA000 receiving_adapter (annotated 5 (inbox_state ''hello''))"

lemma waiting_state_inv: "fee_inv waiting_state"
  unfolding waiting_state_def
proof (rule fee_inv_adapter_upd[OF annotated_inv])
  have "adapter_ok example_globals receiving_adapter"
    using fee_inv_adapter[OF receiving_state_inv, of "0xA000" receiving_adapter]
    by (simp add: receiving_state_def wr_adapter_def example_state_def)
  then show "adapter_ok (glob (annotated 5 (inbox_state ''hello''))) receiving_adapter"
    by (simp add: inbox_state_simps)
  show "fee_inv (inbox_state ''hello'')" by (rule inbox_state_inv) simp
qed (simp_all add: inbox_state_simps)

lemma waiting_state_simps:
  "adapters waiting_state 0xA000 = Some receiving_adapter" "glob waiting_state = example_globals"
  "\<not> incoming_slot_lock receiving_adapter" "valid_id example_globals 5"
  "incoming_slot receiving_adapter = globals receiving_adapter + slot_off example_globals 5"
proof -
  show "adapters waiting_state 0xA000 = Some receiving_adapter" "glob waiting_state = example_globals"
    by (simp_all add: waiting_state_def wr_adapter_def inbox_state_simps)
  show "\<not> incoming_slot_lock receiving_adapter" "valid_id example_globals 5"
    "incoming_slot receiving_adapter = globals receiving_adapter + slot_off example_globals 5"
    by (simp_all add: receiving_adapter_def example_adapter_def inbox_state_simps)
      (simp add: slot_off_def example_globals_def)
qed

lemma waiting_text: "read_text (mail waiting_state (slot_off example_globals 5)) = ''500,27:hello''"
  "sender_field (mail waiting_state (slot_off example_globals 5)) = ''500,27:''"
proof -
  have m: "mail waiting_state (slot_off example_globals 5) = (mail (inbox_state ''hello'') (slot_off example_globals 5))
      \<lparr>peer_SID := 27, peer_CID := of_nat 5 * 100\<rparr>"
    by (simp add: waiting_state_def wr_adapter_def annotated_def inbox_state_simps(2))
  have "show_nat 500 = ''500''" "show_nat 27 = ''27''" by code_simp+
  then show "sender_field (mail waiting_state (slot_off example_globals 5)) = ''500,27:''"
    "read_text (mail waiting_state (slot_off example_globals 5)) = ''500,27:hello''"
    by (simp_all add: m inbox_state_simps(5) read_text_def sender_field_parts)
qed

theorem bridge_read_outcome_witness:
  "\<exists>file' s'. gf_bridge_read copy_to_user0 (\<lambda>s. (0, s)) example_file (replicate 64 CHR ''.'') 64 waiting_state =
      Some (12, ''500,27:hello'' @ replicate 52 CHR ''.'', file', s') \<and> fee_inv s' \<and>
    outbox s' = (outbox waiting_state)(5 := None)"
proof -
  let ?m = "mail waiting_state (slot_off example_globals 5)"
  have a: "adapters waiting_state (private_data example_file) = Some receiving_adapter"
    by (simp add: open_state_simps waiting_state_simps)
  have n: "s32 (int 12) = 12" "length ''500,27:hello'' = 12"
    "drop 12 (replicate 64 CHR ''.'') = replicate 52 CHR ''.''" by (simp_all add: s32_nonneg_id)
  from bridge_read_outcome[OF cu.user_copy_axioms waiting_state_inv a waiting_state_simps(3),
      where wait_event = "\<lambda>s. (0, s)" and u = "replicate 64 CHR ''.''" and len = 64,
      THEN conjunct2, rule_format, of 5 ?m]
  show ?thesis
    unfolding waiting_state_simps(2) waiting_text n using waiting_state_simps(4,5) by (fastforce simp: n)
qed

text \<open>The state after a successful open, and what the other calls do in it.\<close>

definition fresh_buffers :: "addr \<Rightarrow> addr \<Rightarrow> FEE_adapter \<Rightarrow> bridge_buffers" where
  "fresh_buffers kz kzw A = \<lparr>bb_ptr = kz, wbuf_ptr = kzw, wbuf = replicate (unat (max_buflen A)) NUL, wbuf_mutex = False\<rparr>"

definition opened :: "addr \<Rightarrow> FEE_adapter \<Rightarrow> bridge_buffers \<Rightarrow> fee_state \<Rightarrow> fee_state" where
  "opened ap A B s = wr_adapter ap (A\<lparr>nr_users := 1, outgoing := Some B\<rparr>) (k_acquire (Kmem (wbuf_ptr B)) (k_acquire (Kmem (bb_ptr B)) s))"

lemma user_counts: "s32 1 = 1" "s32 0 = 0" "s32 (- 1) = - 1" "s32 2 = 2"
  by (simp_all add: s32_id int32_range_def)

lemma opened_simps [simp]:
  "adapters (opened ap A B s) = (adapters s)(ap \<mapsto> A\<lparr>nr_users := 1, outgoing := Some B\<rparr>)" "chrdevs (opened ap A B s) = chrdevs s"
  by (simp_all add: opened_def wr_adapter_def)

lemma first_open:
  assumes "genz_char_drv_1stopen_private_data file s = Some ap" "adapters s ap = Some A" "nr_users A = 0"
  shows "gf_bridge_open kz kzw file s =
    (if kz = NULL \<or> kzw = NULL
     then Some (err ENOMEM, file\<lparr>private_data := ap\<rparr>,
            if kz = NULL then s else s\<lparr>led := release (Kmem kz) (acquire (Kmem kz) (led s))\<rparr>)
     else Some (0, file\<lparr>private_data := ap\<rparr>, opened ap A (fresh_buffers kz kzw A) s))"
proof -
  have "A\<lparr>nr_users := 0\<rparr> = A" using assms(3) by simp
  then show ?thesis
    using assms
    by (auto simp: gf_bridge_open_def add_user_def user_counts wr_adapter_def map_upd_triv Let_def opened_def fresh_buffers_def kfree_nonnull)
qed

lemma second_open:
  assumes "genz_char_drv_1stopen_private_data file s = Some ap"
  shows "gf_bridge_open k kw file (opened ap A B s) = Some (err EBUSY, file\<lparr>private_data := ap\<rparr>, opened ap A B s)"
proof -
  have eq: "A\<lparr>outgoing := Some B, nr_users := 1\<rparr> = A\<lparr>nr_users := 1, outgoing := Some B\<rparr>" by simp
  have "wr_adapter ap (A\<lparr>outgoing := Some B, nr_users := 1\<rparr>) (opened ap A B s) = opened ap A B s"
    unfolding eq by (simp add: opened_def)
  moreover have "genz_char_drv_1stopen_private_data file (opened ap A B s) = Some ap"
    using assms by (simp add: genz_char_drv_1stopen_private_data_def)
  ultimately show ?thesis by (simp add: gf_bridge_open_def add_user_def Let_def user_counts)
qed

lemma flush_release:
  fixes kz kzw A
  defines "B \<equiv> fresh_buffers kz kzw A"
  assumes "adapters s ap = Some A" "nr_users A = 0" "fee_inv s" "private_data f = ap" "f_count f = 1" "kz \<noteq> NULL" "kzw \<noteq> NULL"
  shows "\<exists>s2 s3. gf_bridge_flush f (opened ap A B s) = Some (0, s2) \<and>
    (\<forall>f'. private_data f' = ap \<longrightarrow> gf_bridge_release f' s2 = Some (0, s3)) \<and>
    fee_inv s3 \<and> balanced (led s) (led s3) \<and> adapters s3 = (adapters s)(ap \<mapsto> A\<lparr>outgoing := None\<rparr>)"
proof -
  define s2 where "s2 = wr_adapter ap (A\<lparr>outgoing := Some B\<rparr>) (k_acquire (Kmem kzw) (k_acquire (Kmem kz) s))"
  define s3 where "s3 = wr_adapter ap (A\<lparr>outgoing := None\<rparr>) (s\<lparr>led := release (Kmem kz) (release (Kmem kzw)
     (acquire (Kmem kzw) (acquire (Kmem kz) (led s))))\<rparr>)"
  have "A\<lparr>outgoing := Some B, nr_users := 0\<rparr> = A\<lparr>outgoing := Some B\<rparr>" using assms(3) by simp
  then have "gf_bridge_flush f (opened ap A B s) = Some (0, s2)"
    using assms(5,6) by (simp add: gf_bridge_flush_def add_user_def s2_def user_counts) (simp add: opened_def B_def fresh_buffers_def)
  moreover have "gf_bridge_release f' s2 = Some (0, s3)" if "private_data f' = ap" for f'
    using that assms(3,7,8)
    by (simp add: gf_bridge_release_def s2_def s3_def B_def fresh_buffers_def wr_adapter_def ledger_simps)
  moreover have "fee_inv s3" unfolding s3_def by (rule outgoing_upd_inv) (use assms(2,4) in simp_all)
  moreover have "balanced (led s) (led s3)" "adapters s3 = (adapters s)(ap \<mapsto> A\<lparr>outgoing := None\<rparr>)"
    by (simp_all add: s3_def wr_adapter_def balanced_def ledger_simps)
  ultimately show ?thesis by blast
qed

lemma opened_inv:
  assumes "fee_inv s" "adapters s ap = Some A"
  shows "fee_inv (opened ap A B s)"
proof -
  have "adapter_ok (glob s) (A\<lparr>nr_users := 1, outgoing := Some B\<rparr>)" "ap \<noteq> NULL"
    using fee_inv_adapter[OF assms] assms by (auto simp: adapter_ok_def fee_inv_def)
  then show ?thesis unfolding opened_def by (intro fee_inv_adapter_upd) (use assms(1) in simp_all)
qed

text \<open>C21: the life of an open bridge. An open without memory is \<open>ENOMEM\<close> and leaves nothing behind. Otherwise the
  first open sets up the buffers and every further one is \<open>EBUSY\<close> and changes nothing; releasing the file
  before its last flush stops the kernel, while the flush of the last reference and then the release give both
  buffers back once and make the bridge free for the next open.\<close>

theorem bridge_lifecycle:
  assumes "fee_inv s" "chrdevs s (f_container file) = Some d" "file_private_data d = ap" "adapters s ap = Some A"
    and "nr_users A = 0"
  shows "\<exists>ret f1 s1. gf_bridge_open kz kzw file s = Some (ret, f1, s1) \<and> private_data f1 = ap \<and>
    (if kz = NULL \<or> kzw = NULL
     then ret = err ENOMEM \<and> balanced (led s) (led s1) \<and> adapters s1 = adapters s
     else ret = 0 \<and> fee_inv s1 \<and> (\<exists>A1 B. bridge_opened s1 ap A1 B) \<and>
       (\<forall>k kw file2. f_container file2 = f_container file \<longrightarrow>
          gf_bridge_open k kw file2 s1 = Some (err EBUSY, file2\<lparr>private_data := ap\<rparr>, s1)) \<and>
       gf_bridge_release f1 s1 = None \<and>
       (\<exists>s2 s3. gf_bridge_flush (f1\<lparr>f_count := 1\<rparr>) s1 = Some (0, s2) \<and> gf_bridge_release f1 s2 = Some (0, s3) \<and>
          fee_inv s3 \<and> balanced (led s) (led s3) \<and> adapters s3 = (adapters s)(ap \<mapsto> A\<lparr>outgoing := None\<rparr>)))"
proof (cases "kz = NULL \<or> kzw = NULL")
  case True
  have p: "genz_char_drv_1stopen_private_data file s = Some ap"
    using assms(2,3) by (simp add: genz_char_drv_1stopen_private_data_def)
  show ?thesis using first_open[OF p assms(4,5), of kz kzw] True by (auto simp: balanced_def ledger_simps)
next
  case False
  let ?B = "fresh_buffers kz kzw A" and ?f = "file\<lparr>private_data := ap\<rparr>"
  let ?s1 = "opened ap A ?B s"
  have p: "genz_char_drv_1stopen_private_data f s = Some ap" if "f_container f = f_container file" for f
    using that assms(2,3) by (simp add: genz_char_drv_1stopen_private_data_def)
  have op: "gf_bridge_open kz kzw file s = Some (0, ?f, ?s1)" using first_open[OF p assms(4,5)] False by simp
  have "gf_bridge_release ?f ?s1 = None" by (simp add: gf_bridge_release_def)
  moreover have "bridge_opened ?s1 ap (A\<lparr>nr_users := 1, outgoing := Some ?B\<rparr>) ?B"
    by (simp add: bridge_opened_def fresh_buffers_def)
  ultimately show ?thesis
    using False op second_open[OF p] flush_release[OF assms(4,5,1), of "?f\<lparr>f_count := 1\<rparr>" kz kzw] opened_inv[OF assms(1,4)]
    by (intro exI[of _ 0] exI[of _ ?f] exI[of _ ?s1]) auto
qed

definition bound_state :: fee_state where
  "bound_state = example_state\<lparr>chrdevs := [0x4000 \<mapsto> zero_chrdev\<lparr>file_private_data := 0xA000\<rparr>]\<rparr>"

theorem bridge_lifecycle_witness:
  "\<exists>f1 s1. gf_bridge_open 0xC400 0xC500 example_file bound_state = Some (0, f1, s1) \<and> fee_inv s1 \<and>
    gf_bridge_open 0xC600 0xC700 example_file s1 = Some (err EBUSY, example_file\<lparr>private_data := 0xA000\<rparr>, s1) \<and>
    gf_bridge_release f1 s1 = None \<and>
    (\<exists>s2 s3. gf_bridge_flush (f1\<lparr>f_count := 1\<rparr>) s1 = Some (0, s2) \<and> gf_bridge_release f1 s2 = Some (0, s3) \<and>
       balanced (led bound_state) (led s3))"
proof -
  have s: "fee_inv bound_state" using fee_inv_same[OF example_state_inv] by (simp add: bound_state_def)
  have d: "chrdevs bound_state (f_container example_file) = Some (zero_chrdev\<lparr>file_private_data := 0xA000\<rparr>)"
    "file_private_data (zero_chrdev\<lparr>file_private_data := 0xA000\<rparr>) = 0xA000"
    "adapters bound_state 0xA000 = Some example_adapter" "nr_users example_adapter = 0"
    by (simp_all add: bound_state_def example_file_def example_list example_adapter_def)
  have nz: "\<not> ((0xC400 :: addr) = NULL \<or> (0xC500 :: addr) = NULL)" by simp
  from bridge_lifecycle[OF s d, of "0xC400" "0xC500", unfolded if_not_P[OF nz]] show ?thesis by metis
qed

text \<open>The core structure that \<open>gf_bridge_init\<close> makes.\<close>

lemma init_start:
  assumes "be_kz_core env \<noteq> NULL" "be_kz_table env \<noteq> NULL"
  shows "\<exists>l c. gf_bridge_init env s = do {
      let s2 = s\<lparr>led := l, cores := (cores s)(be_kz_core env \<mapsto> c)\<rparr>;
      (ret, s3) \<leftarrow> FEE_register (be_down env) (be_chrdev env) (be_wait env) (gf_bridge_driver env (be_kz_core env)) s2;
      if ret < 0 then Some (ret, 0, s3) else Some (if ret \<noteq> 0 then 0 else err ENODEV, ret, s3) } \<and>
    length (Base_C_Class_str c) = 32 \<and> Base_C_Class_str c ! 31 = NUL \<and> MaxInterface c = 2"
proof -
  let ?kz = "be_kz_core env" and ?c = "zero_core\<lparr>CCE := cce_num DISCRETE_BRIDGE, comp_dest_table := be_kz_table env\<rparr>"
  let ?l = "acquire (Kmem (be_kz_table env)) (acquire (Kmem ?kz) (led s))"
  have "genz_core_structure_create ?kz (be_kz_table env) (cce_num DISCRETE_BRIDGE) s =
      Some (Inr ?kz, s\<lparr>led := ?l, cores := (cores s)(?kz \<mapsto> ?c)\<rparr>)"
    using assms by (simp add: genz_core_structure_create_def is_bridge_def Let_def
        GENZ_CORE_STRUCTURE_ALLOC_COMP_DEST_TABLE_def)
  then show ?thesis
    using assms(1)
    by (intro exI[of _ ?l] exI[of _ "?c\<lparr>MaxInterface := 2, MaxCTL := 8192\<rparr>"])
      (simp add: gf_bridge_init_def Let_def zero_core_def del: bind_eq_Some)
qed

text \<open>The load once there is a core structure: the outcome of \<open>FEE_register\<close> on the adapters of the list.\<close>

lemma init_registers:
  fixes env s
  defines "drv \<equiv> gf_bridge_driver env (be_kz_core env)"
  assumes "fee_inv s" "distinct (FEE_adapter_list s)" "\<forall>ap \<in> set (FEE_adapter_list s). unbound s ap"
    and "\<forall>ap. bind_ok (be_chrdev env ap) (be_wait env ap) ap" "be_down env = 0"
    and "inj_on (\<lambda>ap. kz_chrdev (be_chrdev env ap)) (set (FEE_adapter_list s))"
    and "be_kz_core env \<noteq> NULL" "be_kz_table env \<noteq> NULL"
  obtains r s1 where "gf_bridge_init env s =
      (if r < 0 then Some (r, 0, s1) else Some (if r \<noteq> 0 then 0 else err ENODEV, r, s1))"
    "fee_inv s1" "FEE_adapter_list s1 = FEE_adapter_list s" "named_core s1 (drv_core drv) 2"
    "(\<exists>ap \<in> set (FEE_adapter_list s). \<exists>A. adapters s1 ap = Some A \<and> genz_chrdev A = Inl r) \<or>
       r = int (length (filter (wanted drv s) (FEE_adapter_list s))) \<and>
       (\<forall>ap \<in> set (FEE_adapter_list s). if wanted drv s ap then bound_by drv 2 s1 ap (kz_chrdev (be_chrdev env ap))
          else unbound s1 ap)"
proof -
  let ?cp = "be_kz_core env" and ?L = "FEE_adapter_list s"
  have drv: "drv_core drv = ?cp" by (simp add: drv_def gf_bridge_driver_def)
  obtain l c where init: "gf_bridge_init env s = do {
      let s2 = s\<lparr>led := l, cores := (cores s)(?cp \<mapsto> c)\<rparr>;
      (ret, s3) \<leftarrow> FEE_register (be_down env) (be_chrdev env) (be_wait env) drv s2;
      if ret < 0 then Some (ret, 0, s3) else Some (if ret \<noteq> 0 then 0 else err ENODEV, ret, s3) }"
    and c: "length (Base_C_Class_str c) = 32" "Base_C_Class_str c ! 31 = NUL" "MaxInterface c = 2"
    using init_start[OF assms(8,9), of s] unfolding drv_def by blast
  define s0 where "s0 = s\<lparr>led := l, cores := (cores s)(?cp \<mapsto> c)\<rparr>"
  have s0: "fee_inv s0" "FEE_adapter_list s0 = ?L" "unbound s0 = unbound s" "wanted drv s0 = wanted drv s"
    using assms(2) by (simp_all add: s0_def unbound_def wanted_def fun_eq_iff)
  have core: "named_core s0 (drv_core drv) 2" using c drv by (simp add: named_core_def s0_def)
  obtain r s1 where reg: "FEE_register 0 (be_chrdev env) (be_wait env) drv s0 = Some (r, s1)" "fee_inv s1"
    "FEE_adapter_list s1 = ?L" "named_core s1 (drv_core drv) 2"
    "(\<exists>ap \<in> set ?L. \<exists>A. adapters s1 ap = Some A \<and> genz_chrdev A = Inl r) \<or>
       r = int (length (filter (wanted drv s) ?L)) \<and>
       (\<forall>ap \<in> set ?L. if wanted drv s ap then bound_by drv 2 s1 ap (kz_chrdev (be_chrdev env ap)) else unbound s1 ap)"
    using register_free[OF s0(1) _ _ core assms(5)] assms(3,4,7) unfolding s0(2-4) by blast
  show thesis by (rule that[OF _ reg(2-5)]) (use init reg(1) assms(6) in \<open>simp add: s0_def\<close>)
qed


definition example_bridge_env :: bridge_env where
  "example_bridge_env = \<lparr>be_fops = 0xF000, be_owner = ''fee_bridge'', be_sysfs_read = 0xF100, be_sysfs_write = 0xF200,
     be_onlySlot = 4, be_kz_core = 0x9800, be_kz_table = 0x9900, be_down = 0, be_chrdev = (\<lambda>_. good_chrdev_env),
     be_wait = (\<lambda>_. example_env)\<rparr>"


text \<open>polling always reports that there is something to read, whether there is or not; it reports that
  a write will not block exactly while the adapter's own slot is free.\<close>

lemma bridge_poll_result:
  assumes "fee_inv s" "adapters s (private_data file) = Some A"
  shows "\<exists>r. gf_bridge_poll file s = Some r \<and> r AND POLLIN = POLLIN \<and>
    (r AND POLLOUT = POLLOUT \<longleftrightarrow> outbox s (unat (my_id A)) = None)"
proof -
  have v: "valid_id (glob s) (unat (my_id A))" using fee_inv_adapter[OF assms] by (simp add: adapter_ok_def)
  have "gf_bridge_poll file s = Some (if outbox s (unat (my_id A)) = None then 0x145 else 0x41)"
    using assms(2) rd_my_mail[OF assms] outbox_free[OF v]
    by (simp add: gf_bridge_poll_def my_mail_def POLLIN_def POLLRDNORM_def POLLOUT_def POLLWRNORM_def Let_def)
  then show ?thesis by (simp add: POLLIN_def POLLOUT_def)
qed

lemma bridge_poll_result_witness:
  "\<exists>r. gf_bridge_poll example_file open_state = Some r \<and> r AND POLLIN = POLLIN \<and> r AND POLLOUT = POLLOUT"
proof -
  have a: "adapters open_state (private_data example_file) = Some open_adapter"
    using open_state_opened by (simp add: bridge_opened_def)
  from bridge_poll_result[OF open_state_inv a] show ?thesis by (auto simp: open_state_simps)
qed

section \<open>Lemmas: a write into a free slot\<close>

text \<open>The state after it, as far as the receiver sees it.\<close>

text \<open>A locked write on a free slot: the send and the unlocking.\<close>

lemma send_writing_idle:
  assumes "fee_inv s" "adapters s ap = Some A" "outbox s (unat (my_id A)) = None"
    and "send_error (glob s) CID SID (of_nat (length body)) = None" "length body < 2 ^ 31"
  shows "\<exists>s1 m. do {
      (ret, s) \<leftarrow> send_restart env CID SID (body @ NUL # r) (of_nat (length body)) len ap 0 (writing ap A B v s);
      unlock_return ap ret s } = Some (s32 (uint len), s1) \<and>
    fee_inv s1 \<and> outbox s1 = (outbox s)(unat (my_id A) \<mapsto> (unat (dest_peer CID SID), body)) \<and>
    doorbells s1 = doorbells s @ [(ap, ringer (ucast (dest_peer CID SID)) (my_id A))] \<and>
    glob s1 = glob s \<and> (\<forall>aq. aq \<noteq> ap \<longrightarrow> adapters s1 aq = adapters s aq) \<and>
    mail s1 = (mail s)(slot_off (glob s) (unat (my_id A)) := m) \<and>
    buflen m = of_nat (length body) \<and> (\<exists>r. buf m = body @ NUL # r)"
proof -
  let ?A = "A\<lparr>outgoing := Some (B\<lparr>wbuf := v, wbuf_mutex := True\<rparr>)\<rparr>" and ?s = "writing ap A B v s"
  let ?len = "of_nat (length body) :: uint64" and ?peer = "dest_peer CID SID"
  define s2 where "s2 = note_longest (jiffies (env 0) 0 + PRIOR_RESP_WAIT (env 0)) ?s"
  define t where "t = sent ap ?A ?peer (body @ NUL # r) ?len s2"
  define s1 where "s1 = wr_adapter ap (?A\<lparr>outgoing := Some (B\<lparr>wbuf := v, wbuf_mutex := False\<rparr>)\<rparr>) t"
  define m where "m = (my_mail s A)\<lparr>buflen := ?len, last_responder := ucast ?peer,
      buf := body @ NUL # drop (Suc (length body)) (buf (my_mail s A))\<rparr>"
  have n: "unat ?len = length body" using assms(5) by (simp add: unat_of_nat)
  have ne: "?len \<noteq> 0" "length body < payload_size (glob s)" using send_error_None[OF assms(4)] n by simp_all
  have sl: "unat ?len \<le> length (body @ NUL # r)" "unat ?len < 2 ^ 31" using n assms(5) by simp_all
  have sA: "adapters ?s ap = Some ?A" "outbox ?s (unat (my_id ?A)) = None" "send_error (glob ?s) CID SID ?len = None"
    using assms(3,4) by simp_all
  have send: "send_restart env CID SID (body @ NUL # r) ?len len ap 0 ?s = Some (s32 (uint len), t)"
    unfolding t_def s2_def by (rule send_restart_idle[OF writing_inv[OF assms(1,2)] sA sl])
  have t: "adapters t = (adapters s)(ap \<mapsto> ?A)" "glob t = glob s" by (simp_all add: t_def s2_def)
  have "unlock_return ap (s32 (uint len)) t = Some (s32 (uint len), s1)"
    using t by (simp add: unlock_return_def set_outgoing_def s1_def)
  moreover have s2: "fee_inv s2" "adapters s2 ap = Some ?A" using writing_inv[OF assms(1,2)] by (simp_all add: s2_def)
  have "fee_inv t" unfolding t_def by (rule sent_inv[OF s2]) (use n ne in \<open>simp_all add: s2_def\<close>)
  then have "fee_inv s1" unfolding s1_def by (rule outgoing_upd_inv) (use t in simp)
  moreover have "outbox s1 = (outbox s)(unat (my_id A) \<mapsto> (unat ?peer, body))"
    using sent_outbox[OF s2 ne(1) sl(1), of ?peer] n by (simp add: s1_def t_def) (simp add: s2_def)
  moreover have "doorbells t = doorbells s @ [(ap, ringer (ucast ?peer) (my_id A))]"
    by (simp add: t_def s2_def) (simp add: note_longest_def)
  moreover have "mail t = (mail s)(slot_off (glob s) (unat (my_id A)) := m)"
    using n by (simp add: t_def sent_def s2_def my_mail_def m_def) (simp add: writing_def wr_adapter_def)
  ultimately show ?thesis
    using t send by (intro exI[of _ s1] exI[of _ m]) (simp add: m_def, simp add: s1_def wr_adapter_def)
qed

lemma write_idle:
  assumes "user_copy ctu cfu" "fee_inv s" "bridge_opened s (private_data file) A B"
    and "outbox s (unat (my_id A)) = None" "unat len \<le> length u" "Suc (unat len) < payload_size (glob s)"
    and "payload_size (glob s) \<le> 2 ^ 31"
    and "message kst (s32 (uint (server_id (glob s)))) (take (unat len) u) = Inr (CID, SID, body)"
    and "send_error (glob s) CID SID (of_nat (length body)) = None"
  shows "\<exists>s1 m. gf_bridge_write cfu kst env file u len s = Some (int (unat len), s1) \<and>
    fee_inv s1 \<and> outbox s1 = (outbox s)(unat (my_id A) \<mapsto> (unat (dest_peer CID SID), body)) \<and>
    doorbells s1 = doorbells s @ [(private_data file, ringer (ucast (dest_peer CID SID)) (my_id A))] \<and>
    glob s1 = glob s \<and> (\<forall>ap. ap \<noteq> private_data file \<longrightarrow> adapters s1 ap = adapters s ap) \<and>
    mail s1 = (mail s)(slot_off (glob s) (unat (my_id A)) := m) \<and>
    buflen m = of_nat (length body) \<and> (\<exists>r. buf m = body @ NUL # r)"
proof -
  let ?ap = "private_data file" and ?srv = "s32 (uint (server_id (glob s)))"
  have a: "adapters s ?ap = Some A" using assms(3) by (simp add: bridge_opened_def)
  have m: "unat (max_buflen A) = payload_size (glob s)"
    by (rule max_buflen_unat[OF fee_inv_globals[OF assms(2)] fee_inv_adapter[OF assms(2) a]])
  obtain r where w: "gf_bridge_write cfu kst env file u len s =
      write_body kst env ?ap A (take (unat len) u @ NUL # r) len (writing ?ap A B (wbuf B) s)"
    using user_copy.write_start[OF assms(1,3,5), of kst env] assms(6) m by auto
  have "CHR '':'' \<in> set (cstr (take (unat len) u))" using assms(8) by (auto simp: message_def split: if_splits)
  then obtain h bd where d: "take (unat len) u = h @ CHR '':'' # bd" "CHR '':'' \<notin> set h" "NUL \<notin> set h" by (rule cstr_member)
  have dest: "destination kst ?srv h = Inr (CID, SID)" "bd = body"
    using assms(8) message_colon[OF d, of kst ?srv] by (auto split: sum.splits)
  have l: "length (take (unat len) u) = unat len" using assms(5) by simp
  have lb: "length body < 2 ^ 31" using l d(1) dest(2) assms(6,7) by simp
  obtain v where v: "gf_bridge_write cfu kst env file u len s = do {
      (ret, s) \<leftarrow> send_restart env CID SID (body @ NUL # r) (of_nat (length body)) len ?ap 0 (writing ?ap A B v s);
      unlock_return ?ap ret s }"
    using write_body_colon[OF assms(2) a d l, of r kst env B "wbuf B"] unfolding w dest by auto
  have l32: "s32 (uint len) = int (unat len)" using assms(6,7) by (simp add: s32_nonneg_id uint_nat del: of_nat_unat)
  show ?thesis
    unfolding v l32[symmetric] by (rule send_writing_idle[OF assms(2) a assms(4,9) lb])
qed

end
