(* ===== verification/Fee_Protocol.thy ===== *)
theory Fee_Protocol
  imports GF_Bridge
begin

text \<open>
  The mailbox protocol as a whole: any number of adapters that send, take interrupts and read, in any order, over the
  shared mailbox. The abstract machine at the front knows nothing of slots, pointers or locks: a box per id, and for every
  adapter the box it was told to read. What each operation does to it is proved in the locale \<open>net_world\<close> for any world the
  operation may sleep in: what it does first, the sleep, what it does last. The first instance is here: operations run one at a
  time, and while a sender waits the clock runs and nothing else happens (\<open>still\<close>), so a busy slot ends in the timeout and every
  operation is one step of the machine. Overlapping operations are the subject of \<open>Fee_Concurrent\<close>.
\<close>

section \<open>Transition systems\<close>

text \<open>Runs of a transition system, and what a simulation between two of them gives.\<close>

inductive runs :: "('s \<Rightarrow> 'l \<Rightarrow> 's \<Rightarrow> bool) \<Rightarrow> 's \<Rightarrow> 'l list \<Rightarrow> 's \<Rightarrow> bool" for step where
  run_nil: "runs step s [] s"
| run_cons: "step s l t \<Longrightarrow> runs step t ls u \<Longrightarrow> runs step s (l # ls) u"

inductive_cases runs_nilE: "runs step s [] t"
inductive_cases runs_consE: "runs step s (l # ls) u"

lemma run_one: "step s l t \<Longrightarrow> runs step s [l] t"
  using run_cons[OF _ run_nil] .

lemma runs_append: "runs step s ls t \<Longrightarrow> runs step t ms u \<Longrightarrow> runs step s (ls @ ms) u"
  by (induction rule: runs.induct) (auto intro: runs.intros)

locale simulation =
  fixes cstep :: "'s \<Rightarrow> 'e \<Rightarrow> 's \<Rightarrow> bool" and astep :: "'a \<Rightarrow> 'l \<Rightarrow> 'a \<Rightarrow> bool"
    and abs :: "'s \<Rightarrow> 'a" and inv :: "'s \<Rightarrow> bool" and lab :: "'s \<Rightarrow> 'e \<Rightarrow> 'l"
  assumes keeps: "inv s \<Longrightarrow> cstep s e t \<Longrightarrow> inv t"
    and simulates: "inv s \<Longrightarrow> cstep s e t \<Longrightarrow> astep (abs s) (lab s e) (abs t)"
begin

lemma runs_keep: "runs cstep s es t \<Longrightarrow> inv s \<Longrightarrow> inv t"
  by (induction rule: runs.induct) (auto dest: keeps)

lemma runs_simulate:
  "runs cstep s es t \<Longrightarrow> inv s \<Longrightarrow> \<exists>ls. length ls = length es \<and> runs astep (abs s) ls (abs t)"
proof (induction rule: runs.induct)
  case (run_nil s)
  then show ?case by (intro exI[of _ "[]"]) (simp add: runs.run_nil)
next
  case (run_cons s e t es u)
  then obtain l ls where "astep (abs s) l (abs t)" "length ls = length es" "runs astep (abs t) ls (abs u)"
    using keeps simulates by blast
  then show ?case by (intro exI[of _ "l # ls"]) (simp add: runs.run_cons)
qed

text \<open>An invariant of the abstract system holds of every state a run of the concrete one reaches.\<close>

lemma abstract_invariant:
  assumes "\<And>a l b. P a \<Longrightarrow> astep a l b \<Longrightarrow> P b" "runs cstep s es t" "inv s" "P (abs s)"
  shows "P (abs t)"
proof -
  obtain ls where r: "runs astep (abs s) ls (abs t)" using runs_simulate[OF assms(2,3)] by blast
  from r assms(4) show ?thesis by (induction rule: runs.induct) (auto intro: assms(1))
qed

text \<open>What only steps with a label in \<open>Q\<close> can end holds until such a step.\<close>

lemma runs_until:
  assumes "\<And>a l b. P a \<Longrightarrow> astep a l b \<Longrightarrow> \<not> Q l \<Longrightarrow> P b" "runs cstep s es t" "inv s" "P (abs s)"
  shows "P (abs t) \<or> (\<exists>pre e post u v. es = pre @ e # post \<and> runs cstep s pre u \<and> cstep u e v \<and>
    runs cstep v post t \<and> P (abs u) \<and> Q (lab u e))"
  using assms(2-4)
proof (induction rule: runs.induct)
  case (run_cons s e t es u)
  show ?case
  proof (cases "Q (lab s e)")
    case True
    then show ?thesis using run_cons.hyps run_cons.prems runs.run_nil[of cstep s] by (metis append_Nil)
  next
    case False
    then have "P (abs t)" using assms(1) simulates run_cons by blast
    from run_cons.IH[OF keeps[OF run_cons.prems(1) run_cons.hyps(1)] this] show ?thesis
    proof (elim disjE exE conjE)
      fix pre e' post u' v
      assume x: "es = pre @ e' # post" "runs cstep t pre u'" "cstep u' e' v" "runs cstep v post u" "P (abs u')" "Q (lab u' e')"
      from runs.run_cons[of cstep, OF run_cons.hyps(1) x(2)] x(1,3-6) show ?thesis
        by (intro disjI2 exI[of _ "e # pre"] exI[of _ e'] exI[of _ post] exI[of _ u'] exI[of _ v]) simp
    qed simp
  qed
qed simp

end

section \<open>The abstract machine\<close>

record mailbox =
  box :: "nat \<Rightarrow> (nat \<times> bytes) option"
  held_by :: "addr \<Rightarrow> nat option"

text \<open>A message is post_act; an adapter is told to read a box; it takes the message; the link layer takes a message
  and posts its answer, or cannot.\<close>

datatype label =
    Sent nat nat bytes
  | Told addr nat
  | Taken addr nat
  | Answered nat nat bytes
  | Dropped nat
  | Quiet

inductive mbox_step :: "mailbox \<Rightarrow> label \<Rightarrow> mailbox \<Rightarrow> bool" where
  send: "box b n = None \<Longrightarrow> msg \<noteq> [] \<Longrightarrow>
    mbox_step b (Sent n d msg) (b\<lparr>box := (box b)(n \<mapsto> (d, msg))\<rparr>)"
| tell: "mbox_step b (Told ap n) (b\<lparr>held_by := (held_by b)(ap \<mapsto> n)\<rparr>)"
| take: "held_by b ap = Some n \<Longrightarrow>
    mbox_step b (Taken ap n) (b\<lparr>box := (box b)(n := None), held_by := (held_by b)(ap := None)\<rparr>)"
| answer: "n = me \<or> box b me = None \<Longrightarrow> ans \<noteq> [] \<Longrightarrow>
    mbox_step b (Answered n me ans) (b\<lparr>box := (box b)(n := None, me \<mapsto> (n, ans))\<rparr>)"
| drop: "mbox_step b (Dropped n) (b\<lparr>box := (box b)(n := None)\<rparr>)"
| quiet: "mbox_step b Quiet b"

inductive_cases mbox_stepE: "mbox_step b l c"

text \<open>The posts and the removals of a box among the labels of a run.\<close>

fun posts :: "nat \<Rightarrow> label \<Rightarrow> nat" where
  "posts n (Sent m d msg) = (if m = n then 1 else 0)"
| "posts n (Answered m me ans) = (if me = n then 1 else 0)"
| "posts n _ = 0"

fun removals :: "nat \<Rightarrow> label \<Rightarrow> nat" where
  "removals n (Taken ap m) = (if m = n then 1 else 0)"
| "removals n (Answered m me ans) = (if m = n then 1 else 0)"
| "removals n (Dropped m) = (if m = n then 1 else 0)"
| "removals n _ = 0"

definition occupied :: "mailbox \<Rightarrow> nat \<Rightarrow> nat" where
  "occupied b n = (if box b n = None then 0 else 1)"

lemma step_conserves:
  "mbox_step b l c \<Longrightarrow> posts n l + occupied b n \<le> removals n l + occupied c n"
  by (erule mbox_stepE) (auto simp: occupied_def)

lemma step_keeps_box: "box b n = Some m \<Longrightarrow> mbox_step b l c \<Longrightarrow> removals n l \<noteq> 1 \<Longrightarrow> box c n = Some m"
  by (erule mbox_stepE) (auto split: if_splits)

lemma runs_box:
  "runs mbox_step b ls c \<Longrightarrow> box b n = Some m \<Longrightarrow> box c n = Some m \<or> (\<exists>l \<in> set ls. removals n l = 1)"
proof (induction rule: runs.induct)
  case (run_cons b l c ls d)
  then show ?case using step_keeps_box[OF run_cons.prems run_cons.hyps(1)] by auto
qed simp

lemma runs_conserve:
  "runs mbox_step b ls c \<Longrightarrow>
    sum_list (map (posts n) ls) + occupied b n \<le> sum_list (map (removals n) ls) + occupied c n"
proof (induction rule: runs.induct)
  case (run_cons b l c ls d)
  then show ?case using step_conserves[of b l c n] by simp
qed simp

section \<open>The drivers as a transition system\<close>

text \<open>A send through an adapter, the interrupt of an entry of an adapter's table, a read of the waiting
  message.\<close>

datatype event = Send addr int int bytes | Interrupt addr nat | Read addr

inductive fee_step :: "wait_env \<Rightarrow> fee_state \<Rightarrow> event \<Rightarrow> fee_state \<Rightarrow> bool" for env where
  fee_send: "adapters s ap = Some A \<Longrightarrow> length msg < 2 ^ 64 \<Longrightarrow>
    FEE_create_outgoing env CID SID msg (of_nat (length msg)) ap s = Some (ret, s') \<Longrightarrow>
    fee_step env s (Send ap CID SID msg) s'"
| fee_interrupt: "adapters s ap = Some A \<Longrightarrow> IRQ_private A = Some (p, es) \<Longrightarrow> 1 \<le> n \<Longrightarrow> n < length es \<Longrightarrow>
    n < 2 ^ 16 \<Longrightarrow> all_msix env (vector (es ! n)) ap s = Some (r, s') \<Longrightarrow>
    fee_step env s (Interrupt ap n) s'"
| fee_read: "adapters s ap = Some A \<Longrightarrow> incoming_slot A \<noteq> NULL \<Longrightarrow> FEE_release_incoming ap s = Some s' \<Longrightarrow>
    fee_step env s (Read ap) s'"

inductive_cases fee_sendE: "fee_step env s (Send ap CID SID msg) s'"
inductive_cases fee_interruptE: "fee_step env s (Interrupt ap n) s'"
inductive_cases fee_readE: "fee_step env s (Read ap) s'"

text \<open>What an adapter needs to take part: a free lock, its interrupts, and a core structure to answer from.\<close>

definition adapter_ready :: "fee_state \<Rightarrow> FEE_adapter \<Rightarrow> bool" where
  "adapter_ready s A \<longleftrightarrow> \<not> incoming_slot_lock A \<and>
     (\<exists>p es. IRQ_private A = Some (p, es) \<and> irq_table_ok (glob s) es) \<and>
     (\<exists>core. cores s (ad_core A) = Some core \<and> core_ok core)"

definition net_inv :: "fee_state \<Rightarrow> bool" where
  "net_inv s \<longleftrightarrow> fee_inv s \<and> 86 < payload_size (glob s) \<and>
     (\<forall>ap A. adapters s ap = Some A \<longrightarrow> adapter_ready s A)"

text \<open>The abstract state: the boxes, and the box an incoming slot is.\<close>

definition slot_index :: "FEE_globals \<Rightarrow> uint64 \<Rightarrow> nat" where
  "slot_index G off = unat off div unat (slotsize G)"

definition holding :: "fee_state \<Rightarrow> addr \<Rightarrow> nat option" where
  "holding s ap = (case adapters s ap of None \<Rightarrow> None
     | Some A \<Rightarrow> if incoming_slot A = NULL then None else Some (slot_index (glob s) (incoming_slot A - globals A)))"

definition abs_mail :: "fee_state \<Rightarrow> mailbox" where
  "abs_mail s = \<lparr>box = outbox s, held_by = holding s\<rparr>"

definition event_label :: "fee_state \<Rightarrow> event \<Rightarrow> label" where
  "event_label s e = (case e of
     Send ap CID SID msg \<Rightarrow>
       (case adapters s ap of None \<Rightarrow> Quiet
        | Some A \<Rightarrow>
            if send_error (glob s) CID SID (of_nat (length msg)) = None \<and> outbox s (unat (my_id A)) = None
            then Sent (unat (my_id A)) (unat (dest_peer CID SID)) msg else Quiet)
   | Interrupt ap n \<Rightarrow>
       (case adapters s ap of None \<Rightarrow> Quiet
        | Some A \<Rightarrow>
            let k = link_kind (mail s (slot_off (glob s) n)); me = unat (my_id A) in
            if \<not> valid_id (glob s) n then Quiet
            else if k = NotLink then Told ap n
            else if n = me \<or> outbox s me = None then Answered n me (link_answer k (the (cores s (ad_core A))))
            else Dropped n)
   | Read ap \<Rightarrow> (case holding s ap of None \<Rightarrow> Quiet | Some n \<Rightarrow> Taken ap n))"

text \<open>An operation that sleeps acts twice on the mailbox: when it starts, and when it runs again in a state \<open>u\<close>. Only
  the interrupt of a link message does something first: it frees the slot it answers.\<close>

definition link_interrupt :: "fee_state \<Rightarrow> nat \<Rightarrow> bool" where
  "link_interrupt s n \<longleftrightarrow> valid_id (glob s) n \<and> link_kind (mail s (slot_off (glob s) n)) \<noteq> NotLink"

definition before_labels :: "fee_state \<Rightarrow> event \<Rightarrow> label list" where
  "before_labels s e = (case e of Interrupt ap n \<Rightarrow> if link_interrupt s n then [Dropped n] else [] | _ \<Rightarrow> [])"

definition after_label :: "fee_state \<Rightarrow> fee_state \<Rightarrow> event \<Rightarrow> label" where
  "after_label s u e = (case e of
     Send ap CID SID msg \<Rightarrow> event_label u e
   | Interrupt ap n \<Rightarrow>
       (case adapters s ap of None \<Rightarrow> Quiet
        | Some A \<Rightarrow>
            if link_interrupt s n
            then if outbox u (unat (my_id A)) = None
                 then Sent (unat (my_id A)) n
                        (link_answer (link_kind (mail s (slot_off (glob s) n))) (the (cores s (ad_core A))))
                 else Quiet
            else event_label s e)
   | Read ap \<Rightarrow> event_label s e)"

text \<open>What no operation changes: the globals, which adapters there are, their ids and their mappings.\<close>

definition client_of :: "fee_state \<Rightarrow> addr \<Rightarrow> nat option" where
  "client_of s ap = map_option (\<lambda>A. unat (my_id A)) (adapters s ap)"

definition same_net :: "fee_state \<Rightarrow> fee_state \<Rightarrow> bool" where
  "same_net s t \<longleftrightarrow> glob t = glob s \<and> client_of t = client_of s \<and> (\<forall>ap. keeps_adapter ap s t)"

lemma slot_index_off: "globals_ok G \<Longrightarrow> valid_id G n \<Longrightarrow> slot_index G (slot_off G n) = n"
  using slotsize_pos[of G] slot_off_unat[of G n] valid_id_le[of G n] by (simp add: slot_index_def)

section \<open>Lemmas\<close>

lemma net_invD:
  assumes "net_inv s"
  shows "fee_inv s" "86 < payload_size (glob s)" "globals_ok (glob s)"
    "adapters s ap = Some A \<Longrightarrow> adapter_ready s A"
  using assms fee_inv_globals by (auto simp: net_inv_def)

lemma net_inv_mail:
  assumes "net_inv s" "fee_inv t" "glob t = glob s" "cores t = cores s" "adapters t = adapters s"
  shows "net_inv t"
  using assms by (simp add: net_inv_def adapter_ready_def)

lemma holding_same: "glob t = glob s \<Longrightarrow> adapters t = adapters s \<Longrightarrow> holding t = holding s"
  by (rule ext) (auto simp: holding_def split: option.splits)

lemma same_net_adapters: "glob t = glob s \<Longrightarrow> adapters t = adapters s \<Longrightarrow> same_net s t"
  by (simp add: same_net_def client_of_def fun_eq_iff keeps_adapter_def)

lemma same_net_refl [simp]: "same_net s s"
  by (simp add: same_net_adapters)

lemma same_net_trans: "same_net s t \<Longrightarrow> same_net t u \<Longrightarrow> same_net s u"
  unfolding same_net_def by (metis keeps_adapter_trans)

lemma same_net_adapter:
  assumes "same_net s t" "adapters s ap = Some A"
  obtains A' where "adapters t ap = Some A'" "my_id A' = my_id A"
  using assms by (auto simp: same_net_def keeps_adapter_def)

lemma same_net_id: "same_net s t \<Longrightarrow> adapters s ap = Some A \<Longrightarrow> adapters t ap = Some B \<Longrightarrow> my_id B = my_id A"
  by (auto elim: same_net_adapter)

lemma same_net_upd:
  assumes "glob t = glob s" "adapters t = (adapters s)(ap \<mapsto> B)" "adapters s ap = Some A"
    and "my_slot B = my_slot A" "globals B = globals A" "my_id B = my_id A" "max_buflen B = max_buflen A" "regs B = regs A"
  shows "same_net s t"
  using assms by (auto simp: same_net_def client_of_def keeps_adapter_def)

text \<open>What the stores of a send do after the wait.\<close>

definition post_act :: "nat \<Rightarrow> nat \<Rightarrow> bytes \<Rightarrow> fee_state \<Rightarrow> fee_state \<Rightarrow> bool" where
  "post_act me d msg s t \<longleftrightarrow> net_inv t \<and> glob t = glob s \<and> adapters t = adapters s \<and>
     mbox_step (abs_mail s) (if outbox s me = None then Sent me d msg else Quiet) (abs_mail t)"

lemma note_longest_net [simp]:
  "net_inv (note_longest x s) = net_inv s" "abs_mail (note_longest x s) = abs_mail s"
  using holding_same[of "note_longest x s" s]
  by (simp_all add: abs_mail_def) (simp add: net_inv_def adapter_ready_def note_longest_def)

lemma sent_post_act:
  assumes "net_inv s" "adapters s ap = Some A" "outbox s (unat (my_id A)) = None"
    and "len \<noteq> 0" "unat len < payload_size (glob s)" "unat len \<le> length data"
  shows "post_act (unat (my_id A)) (unat peer) (take (unat len) data) s (sent ap A peer data len (note_longest x s))"
proof -
  let ?u = "note_longest x s" and ?me = "unat (my_id A)"
  let ?t = "sent ap A peer data len ?u"
  have u: "fee_inv ?u" "adapters ?u ap = Some A" "net_inv ?u" "unat len < payload_size (glob ?u)"
    using assms(1,2,5) by (simp_all add: net_invD)
  have "net_inv ?t" by (rule net_inv_mail[OF u(3) sent_inv[OF u(1,2,4) assms(6)]]) simp_all
  moreover have "abs_mail ?t = (abs_mail s)\<lparr>box := (box (abs_mail s))(?me \<mapsto> (unat peer, take (unat len) data))\<rparr>"
    using sent_outbox[OF u(1,2) assms(4,6)] holding_same[of ?t s] by (simp add: abs_mail_def)
  moreover have "take (unat len) data \<noteq> []" using assms(4,6) by (auto simp: unat_eq_0)
  ultimately show ?thesis
    using assms(3) mbox_step.send[of "abs_mail s" ?me "take (unat len) data" "unat peer"]
    by (simp add: post_act_def abs_mail_def)
qed

text \<open>An interrupt.\<close>

lemma link_core_ok: "core_ok c \<Longrightarrow> core_ok (link_core (link_kind m) c)"
  by (cases "link_kind m") (auto simp: core_ok_def dest: link_kind_CtlWrite(3,4))

lemma net_inv_core:
  assumes "net_inv s" "fee_inv t" "glob t = glob s" "adapters t = adapters s"
    and "cores t = (cores s)(cp \<mapsto> c)" "core_ok c"
  shows "net_inv t"
  using assms by (auto simp: net_inv_def adapter_ready_def)

lemma delivered_net:
  assumes "net_inv s" "adapters s ap = Some A" "valid_id (glob s) n"
  shows "net_inv (delivered ap A n s)"
    and "abs_mail (delivered ap A n s) = (abs_mail s)\<lparr>held_by := (held_by (abs_mail s))(ap \<mapsto> n)\<rparr>"
proof -
  note i = net_invD[OF assms(1)]
  have "globals A + slot_off (glob s) n \<noteq> NULL" by (rule slot_pointer_nonnull[OF i(1) assms(2,3)])
  then have "holding (delivered ap A n s) = (holding s)(ap \<mapsto> n)"
    using slot_index_off[OF i(3) assms(3)] by (auto simp: holding_def split: option.splits)
  then show "abs_mail (delivered ap A n s) = (abs_mail s)\<lparr>held_by := (held_by (abs_mail s))(ap \<mapsto> n)\<rparr>"
    using delivered_outbox[OF i(3) assms(3)] by (simp add: abs_mail_def)
  show "net_inv (delivered ap A n s)"
    using delivered_inv[OF i(1) assms(2,3)] i(2) i(4) assms(2) by (auto simp: net_inv_def adapter_ready_def)
qed

lemma link_taken_net:
  fixes s n ap A core
  defines "k \<equiv> link_kind (mail s (slot_off (glob s) n))"
  defines "t \<equiv> assigned (ad_core A) k (taken ap (A\<lparr>incoming_slot_lock := True\<rparr>) n (locked ap A s))"
  assumes "net_inv s" "adapters s ap = Some A" "valid_id (glob s) n" "cores s (ad_core A) = Some core" "core_ok core"
  shows "net_inv t" "adapters t = adapters s" "glob t = glob s" "outbox t = (outbox s)(n := None)"
proof -
  note i = net_invD[OF assms(3)]
  let ?A = "A\<lparr>incoming_slot_lock := True\<rparr>"
  have l: "fee_inv (locked ap A s)" "adapters (locked ap A s) ap = Some ?A" "valid_id (glob (locked ap A s)) n"
    using locked_inv[OF i(1) assms(4)] assms(5) by simp_all
  have "\<not> incoming_slot_lock A" using i(4)[OF assms(4)] by (simp add: adapter_ready_def)
  then have "A\<lparr>incoming_slot_lock := False\<rparr> = A" by simp
  then have "(adapters s)(ap \<mapsto> A\<lparr>incoming_slot_lock := False\<rparr>) = adapters s" using assms(4) by (simp add: map_upd_triv)
  then show a: "adapters t = adapters s" by (simp add: t_def)
  show g: "glob t = glob s" by (simp add: t_def)
  have "cores t = (cores s)(ad_core A \<mapsto> link_core k core)"
    unfolding t_def using assms(6) by (subst assigned_core) simp_all
  moreover have "fee_inv t" unfolding t_def by (rule taken_inv[OF l])
  ultimately show "net_inv t"
    using net_inv_core[OF assms(3) _ g a] link_core_ok[OF assms(7)] by (simp add: k_def)
  show "outbox t = (outbox s)(n := None)"
    unfolding t_def using taken_outbox[OF _ l(3)] i(3) by simp
qed

text \<open>A read.\<close>

lemma read_step:
  assumes "net_inv s" "adapters s ap = Some A" "incoming_slot A \<noteq> NULL"
  shows "\<exists>s'. FEE_release_incoming ap s = Some s' \<and> net_inv s' \<and> same_net s s' \<and>
    mbox_step (abs_mail s) (event_label s (Read ap)) (abs_mail s')"
proof -
  note i = net_invD[OF assms(1)]
  from fee_inv_adapter[OF i(1) assms(2)] assms(3) obtain n where n: "valid_id (glob s) n"
    "incoming_slot A = globals A + slot_off (glob s) n" by (auto simp: adapter_ok_def)
  have l: "\<not> incoming_slot_lock A" using i(4)[OF assms(2)] by (simp add: adapter_ready_def)
  let ?t = "released ap A n s"
  have h: "holding s ap = Some n" using assms(2,3) n slot_index_off[OF i(3) n(1)] by (simp add: holding_def)
  have "holding ?t = (holding s)(ap := None)"
    by (rule ext) (simp add: holding_def released_def split: option.splits)
  then have "abs_mail ?t = (abs_mail s)\<lparr>box := (box (abs_mail s))(n := None), held_by := (held_by (abs_mail s))(ap := None)\<rparr>"
    using released_outbox[OF i(3) n(1)] by (simp add: abs_mail_def)
  moreover have "net_inv ?t"
    using released_inv[OF i(1) assms(2) n(1)] assms(1,2)
    by (auto simp: net_inv_def adapter_ready_def released_def)
  moreover have "mbox_step (abs_mail s) (event_label s (Read ap))
      ((abs_mail s)\<lparr>box := (box (abs_mail s))(n := None), held_by := (held_by (abs_mail s))(ap := None)\<rparr>)"
    using mbox_step.take[of "abs_mail s" ap n] h by (simp add: event_label_def abs_mail_def)
  moreover have "same_net s ?t" by (rule same_net_upd[where B = "A\<lparr>incoming_slot := NULL, incoming_slot_lock := False\<rparr>", OF _ _ assms(2)])
      (simp_all add: released_def)
  ultimately show ?thesis using release_incoming_held[OF i(1) assms(2) l n] by simp
qed

text \<open>
  The interface between the operations and the world they sleep in: \<open>R\<close> is what may happen to the state during a
  sleep, it keeps the invariant and the adapters, and the clock runs. The effect of every operation is proved once
  for any such world.
\<close>

locale net_world = wait_relation ok R for ok :: "wait_env \<Rightarrow> bool" and R :: "fee_state \<Rightarrow> fee_state \<Rightarrow> bool" +
  assumes ticks: "ok env \<Longrightarrow> clock_runs env"
    and world: "R s t \<Longrightarrow> net_inv s \<Longrightarrow> net_inv t \<and> same_net s t"

sublocale net_world < waits: wait_world ok net_inv ap for ap
  by unfold_locales (use world[OF sleeps] ticks net_invD(1) in \<open>auto simp: same_net_def\<close>)

context net_world
begin

lemma create_step:
  assumes "net_inv s" "ok env" "adapters s ap = Some A" "send_error (glob s) CID SID len = None" "unat len \<le> length data"
  shows "\<exists>ret s' s1. FEE_create_outgoing env CID SID data len ap s = Some (ret, s') \<and> R s s1 \<and>
    (outbox s (unat (my_id A)) = None \<longrightarrow> s1 = s) \<and>
    post_act (unat (my_id A)) (unat (dest_peer CID SID)) (take (unat len) data) s1 s'"
proof -
  note i = net_invD(1)[OF assms(1)] and len = send_error_None(1,2)[OF assms(4)]
  obtain now s1 where w: "wait_hw_ready env ap (jiffies env 0 + PRIOR_RESP_WAIT env) 0 1 0 s = Some (now, s1)"
    and s1: "net_inv s1" "keeps_adapter ap s s1" by (rule waits.wait_ends[OF assms(2,1,3)])
  have free: "s1 = s" if "outbox s (unat (my_id A)) = None" using w wait_free[OF i assms(3) that] by simp
  have R: "R s s1" using wait_rel[OF w assms(2)] by simp
  obtain A1 x where A1: "adapters s1 ap = Some A1" "my_id A1 = my_id A" "glob s1 = glob s"
    and c: "FEE_create_outgoing env CID SID data len ap s =
      (if outbox s1 (unat (my_id A)) = None
       then Some (s32 (uint len), sent ap A1 (dest_peer CID SID) data len (note_longest x s1))
       else Some (err ERESTARTSYS, note_longest x s1))"
    by (rule create_outgoing_waited[OF i assms(3-5) w net_invD(1)[OF s1(1)] s1(2)])
  have "post_act (unat (my_id A)) (unat (dest_peer CID SID)) (take (unat len) data) s1
      (sent ap A1 (dest_peer CID SID) data len (note_longest x s1))" if "outbox s1 (unat (my_id A)) = None"
    using sent_post_act[OF s1(1) A1(1) _ len(2), of data "dest_peer CID SID"] that len(1) assms(5) A1 by simp
  moreover have "post_act (unat (my_id A)) d msg s1 (note_longest x s1)" if "outbox s1 (unat (my_id A)) \<noteq> None" for d msg
    using that s1(1) mbox_step.quiet[of "abs_mail s1"] by (auto simp: post_act_def)
  ultimately show ?thesis using c R free by (cases "outbox s1 (unat (my_id A)) = None") auto
qed

lemma send_step:
  assumes "net_inv s" "ok env" "adapters s ap = Some A" "length msg < 2 ^ 64"
  shows "\<exists>ret s' s1. FEE_create_outgoing env CID SID msg (of_nat (length msg)) ap s = Some (ret, s') \<and> R s s1 \<and>
    (outbox s (unat (my_id A)) = None \<longrightarrow> s1 = s) \<and> net_inv s' \<and> same_net s1 s' \<and>
    mbox_step (abs_mail s1) (event_label s1 (Send ap CID SID msg)) (abs_mail s')"
proof -
  let ?n = "of_nat (length msg) :: uint64" and ?me = "unat (my_id A)"
  have n: "unat ?n = length msg" using assms(4) by (simp add: unat_of_nat)
  show ?thesis
  proof (cases "send_error (glob s) CID SID ?n")
    case None
    obtain ret s' s1 where c: "FEE_create_outgoing env CID SID msg ?n ap s = Some (ret, s')" "R s s1"
      "outbox s ?me = None \<longrightarrow> s1 = s" "post_act ?me (unat (dest_peer CID SID)) msg s1 s'"
      using create_step[OF assms(1-3) None, of msg] n by auto
    obtain A1 where A1: "adapters s1 ap = Some A1" "my_id A1 = my_id A" "glob s1 = glob s"
      using world[OF c(2) assms(1)] assms(3) by (auto simp: same_net_def keeps_adapter_def)
    then have "event_label s1 (Send ap CID SID msg) =
        (if outbox s1 ?me = None then Sent ?me (unat (dest_peer CID SID)) msg else Quiet)"
      using None by (simp add: event_label_def)
    with c show ?thesis using same_net_adapters by (auto simp: post_act_def)
  next
    case (Some e)
    then have "event_label s (Send ap CID SID msg) = Quiet" using assms(3) by (simp add: event_label_def)
    then show ?thesis
      using create_outgoing_error[OF net_invD(1)[OF assms(1)] assms(3) Some, of env msg] mbox_step.quiet[of "abs_mail s"]
        assms(1) refl[of s] by auto
  qed
qed

text \<open>The interrupt of a link message: the slot of the sender is free and the lock released before the answer waits for
  the receiver's own slot.\<close>

lemma link_interrupt_step:
  fixes s n A core
  defines "k \<equiv> link_kind (mail s (slot_off (glob s) n))"
  assumes "net_inv s" "ok env" "adapters s ap = Some A" "IRQ_private A = Some (p, es)"
    and "1 \<le> n" "n < unat (nEvents (glob s))" "n < 2 ^ 16" "valid_id (glob s) n" "irq_table_ok (glob s) es"
    and "cores s (ad_core A) = Some core" "core_ok core" "k \<noteq> NotLink"
  shows "\<exists>s' t u. all_msix env (vector (es ! n)) ap s = Some (IRQ_HANDLED, s') \<and> net_inv t \<and> same_net s t \<and>
    abs_mail t = (abs_mail s)\<lparr>box := (outbox s)(n := None)\<rparr> \<and> R t u \<and> post_act (unat (my_id A)) n (link_answer k core) u s'"
proof -
  note i = net_invD[OF assms(2)] and v = assms(9)
  have lock: "\<not> incoming_slot_lock A" using i(4)[OF assms(4)] by (simp add: adapter_ready_def)
  let ?A = "A\<lparr>incoming_slot_lock := True\<rparr>"
  define t where "t = assigned (ad_core A) k (taken ap ?A n (locked ap A s))"
  note t = link_taken_net[OF assms(2,4) v assms(11,12), folded k_def, folded t_def]
  define ans where "ans = link_answer k core"
  have ans: "ans \<noteq> []" "length ans < payload_size (glob t)"
    using answer_nonempty[OF assms(13)] answer_length[OF assms(12) k_def[THEN meta_eq_to_obj_eq] assms(13)] i(2) t(3)
    by (simp_all add: ans_def)
  have A: "adapters t ap = Some A" and vt: "valid_id (glob t) n" using t(2,3) assms(4) v by simp_all
  note it = net_invD(3)[OF t(1)]
  note acc = answer_accepted[OF it vt ans] and peer = peer_int[OF it vt]
  obtain r s' u where c: "FEE_create_outgoing env (int n) GENZ_FEE_SID_CID_IS_PEER_ID (ans @ [NUL])
      (of_nat (length ans)) ap t = Some (r, s')" "R t u" "post_act (unat (my_id A)) n ans u s'"
    using create_step[OF t(1) assms(3) A acc(1), of "ans @ [NUL]"] acc(2) peer(2,3) by auto
  have "FEE_link_request env (globals A + slot_off (glob s) n) ap (locked ap A s) = Some (IRQ_HANDLED, s')"
    using link_request_handled[OF locked_inv[OF i(1) assms(4)], of ap ?A n "globals A + slot_off (glob s) n" k core env]
      v assms(11-13) slot_pointer_nonnull[OF i(1) assms(4) v] c(1)
    by (simp add: t_def ans_def k_def)
  from all_msix_link[OF i(1) assms(4) lock assms(5,10,6-9) this]
  show ?thesis
    using c(2,3) t holding_same[OF t(3,2)] same_net_adapters[OF t(3,2)]
    by (intro exI[of _ s'] exI[of _ t] exI[of _ u]) (simp add: abs_mail_def ans_def)
qed

lemma interrupt_step:
  assumes "net_inv s" "ok env" "adapters s ap = Some A" "IRQ_private A = Some (p, es)"
    and "1 \<le> n" "n < length es" "n < 2 ^ 16"
  shows "\<exists>r s' t u. all_msix env (vector (es ! n)) ap s = Some (r, s') \<and>
    net_inv t \<and> same_net s t \<and> runs mbox_step (abs_mail s) (before_labels s (Interrupt ap n)) (abs_mail t) \<and> R t u \<and>
    net_inv s' \<and> same_net u s' \<and> mbox_step (abs_mail u) (after_label s u (Interrupt ap n)) (abs_mail s')"
proof -
  note i = net_invD[OF assms(1)]
  from i(4)[OF assms(3)] assms(4) obtain core where rdy: "\<not> incoming_slot_lock A" "irq_table_ok (glob s) es"
    "cores s (ad_core A) = Some core" "core_ok core" by (auto simp: adapter_ready_def)
  have n: "1 \<le> n" "n < unat (nEvents (glob s))" "n < 2 ^ 16" using assms(5-7) rdy(2) by (auto simp: irq_table_ok_def)
  note irq = i(1) assms(3) rdy(1) assms(4) rdy(2) n
  let ?k = "link_kind (mail s (slot_off (glob s) n))" and ?e = "Interrupt ap n"
  have bf: "before_labels s ?e = (if link_interrupt s n then [Dropped n] else [])" by (simp add: before_labels_def)
  have nl: "after_label s s ?e = (if valid_id (glob s) n then Told ap n else Quiet)" if "\<not> link_interrupt s n"
    using that assms(3) by (simp add: after_label_def event_label_def link_interrupt_def Let_def)
  consider (none) "\<not> valid_id (glob s) n" | (told) "valid_id (glob s) n" "?k = NotLink"
    | (link) "valid_id (glob s) n" "?k \<noteq> NotLink" by blast
  then show ?thesis
  proof cases
    case none
    then have "\<not> link_interrupt s n" by (simp add: link_interrupt_def)
    then show ?thesis
      using all_msix_no_slot[OF irq none] assms(1) bf nl none mbox_step.quiet[of "abs_mail s"] refl[of s]
        run_nil[of mbox_step "abs_mail s"] same_net_refl by fastforce
  next
    case told
    let ?t = "delivered ap A n s"
    have "\<not> link_interrupt s n" using told by (simp add: link_interrupt_def)
    moreover have "same_net s ?t" by (rule same_net_upd[where B = "A\<lparr>incoming_slot := globals A + slot_off (glob s) n\<rparr>", OF _ _ assms(3)]) simp_all
    ultimately show ?thesis
      using all_msix_delivers[OF irq told] delivered_net[OF assms(1,3) told(1)] bf nl told(1) refl[of s]
        mbox_step.tell[of "abs_mail s" ap n] run_nil[of mbox_step "abs_mail s"] assms(1)
      by (intro exI[of _ IRQ_HANDLED] exI[of _ ?t] exI[of _ s]) simp
  next
    case link
    then have l: "link_interrupt s n" by (simp add: link_interrupt_def)
    from link_interrupt_step[OF assms(1-4) n link(1) rdy(2-4) link(2)] obtain s' t u where
      s': "all_msix env (vector (es ! n)) ap s = Some (IRQ_HANDLED, s')" "net_inv t" "same_net s t"
      "abs_mail t = (abs_mail s)\<lparr>box := (outbox s)(n := None)\<rparr>" "R t u"
      "post_act (unat (my_id A)) n (link_answer ?k core) u s'" by blast
    have "runs mbox_step (abs_mail s) [Dropped n] (abs_mail t)"
      using run_one[of mbox_step, OF mbox_step.drop[of "abs_mail s" n]] s'(4) by (simp add: abs_mail_def)
    moreover have "after_label s u ?e = (if outbox u (unat (my_id A)) = None
        then Sent (unat (my_id A)) n (link_answer ?k core) else Quiet)"
      using l assms(3) rdy(3) by (simp add: after_label_def)
    ultimately show ?thesis
      using s' bf l same_net_adapters[of s' u] by (intro exI[of _ IRQ_HANDLED] exI[of _ s'] exI[of _ t] exI[of _ u]) (simp add: post_act_def)
  qed
qed

text \<open>Every operation: what it does first, a sleep, and what it does last.\<close>

lemma step_in_world:
  assumes "net_inv s" "ok env" "fee_step env s e s'"
  shows "\<exists>t u. net_inv t \<and> same_net s t \<and> runs mbox_step (abs_mail s) (before_labels s e) (abs_mail t) \<and> R t u \<and>
    net_inv s' \<and> same_net u s' \<and> mbox_step (abs_mail u) (after_label s u e) (abs_mail s')"
  using assms(3)
proof cases
  case (fee_send ap A msg CID SID ret)
  then obtain s1 where "R s s1" "net_inv s'" "same_net s1 s'" "mbox_step (abs_mail s1) (event_label s1 e) (abs_mail s')"
    using send_step[OF assms(1,2) fee_send(2,3), of CID SID] by auto
  then show ?thesis
    using assms(1) run_nil[of mbox_step "abs_mail s"] fee_send(1)
    by (intro exI[of _ s] exI[of _ s1]) (simp add: before_labels_def after_label_def)
next
  case (fee_interrupt ap A p es n r)
  from interrupt_step[OF assms(1,2) fee_interrupt(2-6)] fee_interrupt(1,7) show ?thesis by auto
next
  case (fee_read ap A)
  then show ?thesis
    using read_step[OF assms(1) fee_read(2,3)] assms(1) run_nil[of mbox_step "abs_mail s"] refl[of s]
    by (intro exI[of _ s]) (simp add: before_labels_def after_label_def)
qed

end

text \<open>Without a sleep the two halves of an operation are one step of the machine.\<close>

lemma drop_then_send:
  assumes "runs mbox_step b [Dropped n] c" "mbox_step c (if box c me = None then Sent me n ans else Quiet) d"
  shows "mbox_step b (if n = me \<or> box b me = None then Answered n me ans else Dropped n) d"
proof -
  have c: "c = b\<lparr>box := (box b)(n := None)\<rparr>" using assms(1) by (auto elim!: runs_consE runs_nilE mbox_stepE)
  show ?thesis
  proof (cases "n = me \<or> box b me = None")
    case True
    with c have "box c me = None" by auto
    with assms(2) have "d = c\<lparr>box := (box c)(me \<mapsto> (n, ans))\<rparr>" "ans \<noteq> []" by (auto elim: mbox_stepE)
    with True c show ?thesis using mbox_step.answer[of n me b ans] by simp
  next
    case False
    with c have "box c me \<noteq> None" by auto
    with assms(2) have "d = c" by (auto elim: mbox_stepE)
    with False c show ?thesis using mbox_step.drop[of b n] by auto
  qed
qed

lemma halves_join:
  assumes "net_inv s" "fee_step env s e s'" "same_net s t" "runs mbox_step (abs_mail s) (before_labels s e) (abs_mail t)"
    and "mbox_step (abs_mail t) (after_label s t e) (abs_mail s')"
  shows "mbox_step (abs_mail s) (event_label s e) (abs_mail s')"
  using assms(2)
proof cases
  case (fee_send ap A msg CID SID ret)
  have "abs_mail t = abs_mail s" using assms(4) fee_send(1) by (auto simp: before_labels_def elim: runs_nilE)
  moreover obtain A' where "adapters t ap = Some A'" "my_id A' = my_id A" by (rule same_net_adapter[OF assms(3) fee_send(2)])
  ultimately show ?thesis
    using assms(3,5) fee_send(1,2) by (auto simp: after_label_def event_label_def same_net_def abs_mail_def split: if_splits)
next
  case (fee_read ap A)
  then show ?thesis using assms(4,5) by (auto simp: before_labels_def after_label_def elim: runs_nilE)
next
  case (fee_interrupt ap A p es n r)
  show ?thesis
  proof (cases "link_interrupt s n")
    case False
    then show ?thesis
      using assms(4,5) fee_interrupt(1,2) by (auto simp: before_labels_def after_label_def elim: runs_nilE)
  next
    case True
    then show ?thesis
      using drop_then_send[of "abs_mail s" n "abs_mail t" "unat (my_id A)" _ "abs_mail s'"] assms(4,5) fee_interrupt(1,2)
      by (simp add: before_labels_def after_label_def event_label_def link_interrupt_def abs_mail_def Let_def)
  qed
qed

interpretation atomic: net_world still "(=)"
  by unfold_locales (auto simp: still_def)

lemma step_simulates:
  assumes "net_inv s" "still env" "fee_step env s e t"
  shows "net_inv t \<and> mbox_step (abs_mail s) (event_label s e) (abs_mail t)"
  using atomic.step_in_world[OF assms] halves_join[OF assms(1,3)] by blast

interpretation drivers: simulation "fee_step env" mbox_step abs_mail "\<lambda>s. still env \<and> net_inv s" event_label for env
  by unfold_locales (use step_simulates in blast)+

text \<open>A delivery followed by the read of it: the box is free, the ids and the layout are as before.\<close>

lemma deliver_read:
  assumes "net_inv t" "adapters t ap = Some A" "IRQ_private A = Some (p, ent)" "n < length ent"
    and "valid_id (glob t) n" "link_kind (mail t (slot_off (glob t) n)) = NotLink"
  shows "\<exists>u v. fee_step env t (Interrupt ap n) u \<and> fee_step env u (Read ap) v \<and> net_inv v \<and> outbox v = (outbox t)(n := None) \<and>
    glob v = glob t \<and> (\<forall>aq Q. adapters t aq = Some Q \<longrightarrow> (\<exists>Q'. adapters v aq = Some Q' \<and> my_id Q' = my_id Q))"
proof -
  note i = net_invD[OF assms(1)]
  from i(4)[OF assms(2)] assms(3) have rdy: "\<not> incoming_slot_lock A" "irq_table_ok (glob t) ent"
    by (auto simp: adapter_ready_def)
  have n: "1 \<le> n" "n < unat (nEvents (glob t))" "n < 2 ^ 16"
    using valid_id_pos[OF i(3) assms(5)] assms(4) rdy(2) valid_id_le[OF assms(5)] i(3)
    by (auto simp: irq_table_ok_def globals_ok_def)
  let ?u = "delivered ap A n t" and ?A = "A\<lparr>incoming_slot := globals A + slot_off (glob t) n\<rparr>"
  have u: "net_inv ?u" "adapters ?u ap = Some ?A" "outbox ?u = outbox t"
    using delivered_net(1)[OF assms(1,2,5)] delivered_outbox[OF i(3) assms(5)] by simp_all
  have "fee_step env t (Interrupt ap n) ?u"
    by (rule fee_interrupt[OF assms(2,3) n(1) assms(4) n(3) all_msix_delivers[OF i(1) assms(2) rdy(1) assms(3) rdy(2) n assms(5,6)]])
  moreover have nn: "incoming_slot ?A \<noteq> NULL" using slot_pointer_nonnull[OF i(1) assms(2,5)] by simp
  moreover have r: "FEE_release_incoming ap ?u = Some (released ap ?A n ?u)"
    by (rule release_incoming_held[OF net_invD(1)[OF u(1)] u(2)]) (use rdy(1) assms(5) in simp_all)
  moreover have "fee_step env ?u (Read ap) (released ap ?A n ?u)" by (rule fee_read[OF u(2) nn r])
  moreover have "outbox (released ap ?A n ?u) = (outbox t)(n := None)"
    using released_outbox[of ?u n] i(3) assms(5) u(3) by simp
  moreover have "net_inv (released ap ?A n ?u)" using read_step[OF u(1,2) nn] r by auto
  moreover have "\<exists>Q'. adapters (released ap ?A n ?u) aq = Some Q' \<and> my_id Q' = my_id Q" if "adapters t aq = Some Q" for aq Q
    using that assms(2) by (auto simp: released_def)
  moreover have "glob (released ap ?A n ?u) = glob t" by (simp add: released_def)
  ultimately show ?thesis by blast
qed

section \<open>Properties\<close>

lemma irq_state_net: "length msg < 384 \<Longrightarrow> net_inv (irq_state msg)"
proof -
  assume "length msg < 384"
  moreover have "86 < payload_size example_globals" by code_simp
  moreover have "ap = 0xA000 \<and> A = irq_adapter" if "adapters (irq_state msg) ap = Some A" for ap A
    using that by (auto simp: irq_state_def inbox_state_def wr_adapter_def example_state_def split: if_splits)
  moreover have "adapter_ready (irq_state msg) irq_adapter"
    using example_irq_table(1) bridge_core_ok irq_state_simps(2,5,6)
    by (simp add: adapter_ready_def) (simp add: irq_state_def wr_adapter_def inbox_state_simps(3) irq_adapter_def)
  ultimately show ?thesis
    using irq_state_inv[of msg] irq_state_simps(2) by (auto simp: net_inv_def)
qed

lemma example_env_still: "still example_env"
  using example_env_clock by (simp add: still_def) (simp add: example_env_def)

lemma irq_state_interrupt:
  assumes "length msg < 384"
  shows "\<exists>t. fee_step example_env (irq_state msg) (Interrupt 0xA000 5) t"
proof -
  let ?es = "irq_table irq_env 16"
  have n: "1 \<le> (5::nat)" "5 < length ?es" "5 < (2::nat) ^ 16" using example_irq_table(2) by simp_all
  obtain r t where "all_msix example_env (vector (?es ! 5)) 0xA000 (irq_state msg) = Some (r, t)"
    using atomic.interrupt_step[OF irq_state_net[OF assms] example_env_still irq_state_simps(1,6) n] by blast
  from fee_interrupt[OF irq_state_simps(1,6) n this] show ?thesis ..
qed

lemma irq_state_label:
  "event_label (irq_state ''hello'') (Interrupt 0xA000 5) = Told 0xA000 5"
  "outbox (irq_state ''hello'') 5 = Some (3, ''hello'')"
proof -
  have "link_kind (mail (inbox_state ''hello'') (slot_off example_globals 5)) = NotLink"
    unfolding inbox_state_simps by code_simp
  then show "event_label (irq_state ''hello'') (Interrupt 0xA000 5) = Told 0xA000 5"
    by (simp add: event_label_def irq_state_simps inbox_state_simps(4) Let_def)
  show "outbox (irq_state ''hello'') 5 = Some (3, ''hello'')"
    by (simp add: outbox_def irq_state_simps inbox_state_simps slot_view_def)
qed

text \<open>C1: the drivers refine the mailbox machine, one operation at a time. In a state where every adapter has its interrupts, its
  core structure and a free lock, every completed send, interrupt and read is one step of the abstract machine,
  with the label the state and the operation determine, and keeps all of that: a send posts exactly its
  message into the sender's box or nothing happens, an interrupt tells the adapter which box to read, or takes a link
  message and posts its answer, a read takes exactly the message the adapter was told of.\<close>

theorem drivers_refine_mailbox:
  assumes "net_inv s" "still env" "fee_step env s e t"
  shows "net_inv t \<and> mbox_step (abs_mail s) (event_label s e) (abs_mail t)"
  using drivers.keeps[OF _ assms(3)] drivers.simulates[OF _ assms(3)] assms(1,2) by simp

theorem drivers_refine_mailbox_witness:
  "\<exists>t. fee_step example_env (irq_state ''hello'') (Interrupt 0xA000 5) t \<and>
     mbox_step (abs_mail (irq_state ''hello'')) (Told 0xA000 5) (abs_mail t)"
  using irq_state_interrupt[of "''hello''"] irq_state_label(1)
    drivers_refine_mailbox[OF irq_state_net[of "''hello''"] example_env_still] by fastforce

text \<open>C7: a message stays in its box, unchanged, whatever the adapters do meanwhile, until an event takes it out:
  the read of an adapter that was told of it, or the interrupt in which the link layer consumes it.\<close>

theorem message_stays:
  assumes "net_inv s" "still env" "runs (fee_step env) s es t" "outbox s n = Some m"
  shows "outbox t n = Some m \<or>
    (\<exists>pre e post u v. es = pre @ e # post \<and> runs (fee_step env) s pre u \<and> fee_step env u e v \<and>
       runs (fee_step env) v post t \<and> outbox u n = Some m \<and> removals n (event_label u e) = 1)"
proof -
  from drivers.runs_until[of "\<lambda>b. box b n = Some m" "\<lambda>l. removals n l = 1", OF step_keeps_box assms(3)] assms(1,2,4)
  show ?thesis by (simp add: abs_mail_def)
qed

theorem message_stays_witness:
  "\<exists>t. runs (fee_step example_env) (irq_state ''hello'') [Interrupt 0xA000 5] t \<and> outbox t 5 = Some (3, ''hello'')"
proof -
  obtain t where t: "fee_step example_env (irq_state ''hello'') (Interrupt 0xA000 5) t"
    using irq_state_interrupt[of "''hello''"] by auto
  then have r: "runs (fee_step example_env) (irq_state ''hello'') [Interrupt 0xA000 5] t" by (rule run_one)
  have "u = irq_state ''hello'' \<and> e = Interrupt 0xA000 5" if "[Interrupt 0xA000 5] = pre @ e # post"
    "runs (fee_step example_env) (irq_state ''hello'') pre u" for pre e post u
    using that by (cases pre) (auto elim: runs_nilE)
  then have "outbox t 5 = Some (3, ''hello'')"
    using message_stays[OF irq_state_net[of "''hello''"] example_env_still r irq_state_label(2)] irq_state_label(1)
    by fastforce
  with r show ?thesis by blast
qed

text \<open>Messages are conserved over a run of whole operations, with one label for each of them.\<close>

lemma messages_conserved_atomic:
  assumes "net_inv s" "still env" "runs (fee_step env) s es t"
  shows "\<exists>ls. length ls = length es \<and> runs mbox_step (abs_mail s) ls (abs_mail t) \<and>
    (\<forall>n. sum_list (map (posts n) ls) + occupied (abs_mail s) n
       \<le> sum_list (map (removals n) ls) + occupied (abs_mail t) n)"
  using drivers.runs_simulate[OF assms(3)] assms(1,2) runs_conserve by blast

text \<open>Client 5 as an adapter of its own, next to client 3, to whom it has sent a text.\<close>

definition peer_adapter :: FEE_adapter where
  "peer_adapter = irq_adapter\<lparr>my_id := 5, my_slot := 0x20000 + slot_off example_globals 5\<rparr>"

definition peer_state :: "string \<Rightarrow> fee_state" where
  "peer_state msg = wr_adapter 0xB000 peer_adapter (irq_state msg)"

lemma peer_adapter_facts:
  "my_id peer_adapter = 5" "\<not> incoming_slot_lock peer_adapter" "ad_core peer_adapter = 0x9000"
  "IRQ_private peer_adapter = Some (0xC000, irq_table irq_env 16)" "adapter_ok example_globals peer_adapter"
proof -
  have "adapter_ok example_globals example_adapter"
    using fee_inv_adapter[OF example_state_inv, of "0xA000" example_adapter] by (simp add: example_state_def)
  then show "adapter_ok example_globals peer_adapter"
    by (simp add: adapter_ok_def peer_adapter_def irq_adapter_def inbox_state_simps(4)) (simp add: example_adapter_def)
qed (simp_all add: peer_adapter_def irq_adapter_def example_adapter_def)

lemma peer_state_simps:
  "adapters (peer_state msg) = (adapters (irq_state msg))(0xB000 \<mapsto> peer_adapter)"
  "glob (peer_state msg) = example_globals" "mail (peer_state msg) = mail (inbox_state msg)"
  "cores (peer_state msg) = cores (irq_state msg)"
  by (simp_all add: peer_state_def irq_state_simps) (simp_all add: wr_adapter_def irq_state_simps)

lemma peer_state_net:
  assumes "length msg < 384"
  shows "net_inv (peer_state msg)"
proof -
  have "fee_inv (peer_state msg)"
    unfolding peer_state_def
    by (rule fee_inv_adapter_upd[OF irq_state_inv[OF assms]]) (simp_all add: irq_state_simps peer_adapter_facts)
  moreover have "cores (irq_state msg) 0x9000 = Some bridge_core"
    by (simp add: irq_state_def wr_adapter_def inbox_state_simps(3))
  ultimately show ?thesis
    using irq_state_net[OF assms] example_irq_table(1) bridge_core_ok
    by (auto simp: net_inv_def peer_state_simps irq_state_simps adapter_ready_def peer_adapter_facts)
qed

end
