(* ===== verification/Fee_Concurrent.thy ===== *)
theory Fee_Concurrent
  imports Fee_Protocol "HOL-Library.Sublist"
begin

text \<open>
  The mailbox protocol with operations that overlap. A send sleeps while its slot is taken, on its own or inside the
  interrupt that answers a link message, and meanwhile the other adapters, and the sleeper's own, send, take interrupts
  and read; those operations may sleep in turn, to any depth. Every operation is then a run of the mailbox machine: what it
  does first, what the others do, and what it does last. The safety and progress of \<open>Fee_Protocol\<close> carry over. Operations
  overlap where the code sleeps; the stores between two sleeps are one step.
\<close>

section \<open>Worlds in which others act\<close>

lemma runs_mono [mono]:
  assumes "\<And>s l t. A s l t \<longrightarrow> B s l t"
  shows "runs A s ls t \<longrightarrow> runs B s ls t"
proof
  assume "runs A s ls t"
  then show "runs B s ls t" by (induction rule: runs.induct) (use assms in \<open>auto intro: runs.intros\<close>)
qed

text \<open>Every sleep is a run of operations in worlds of the same kind, and the clock of the sleeper runs.\<close>

inductive concurrent :: "wait_env \<Rightarrow> bool" where
  others: "clock_runs env \<Longrightarrow>
    (\<And>k d s. net_inv s \<Longrightarrow> \<exists>es. runs (\<lambda>s e t. \<exists>w. concurrent w \<and> fee_step w s e t) s es (sleep env k d s)) \<Longrightarrow>
    concurrent env"

definition busy_step :: "fee_state \<Rightarrow> event \<Rightarrow> fee_state \<Rightarrow> bool" where
  "busy_step s e t \<longleftrightarrow> (\<exists>w. concurrent w \<and> fee_step w s e t)"

lemma still_concurrent: "still env \<Longrightarrow> concurrent env"
  by (rule others) (auto simp: still_def intro: run_nil)

section \<open>The acts of an operation on the mailbox\<close>

text \<open>The labels an operation can have, given the id of every adapter.\<close>

fun of_event :: "(addr \<Rightarrow> nat option) \<Rightarrow> event \<Rightarrow> label \<Rightarrow> bool" where
  "of_event c e Quiet = True"
| "of_event c (Send ap CID SID msg) (Sent n d m) = (c ap = Some n \<and> d = unat (dest_peer CID SID) \<and> m = msg)"
| "of_event c (Interrupt ap n) (Told aq m) = (aq = ap \<and> m = n)"
| "of_event c (Interrupt ap n) (Dropped m) = (m = n)"
| "of_event c (Interrupt ap n) (Answered m me ans) = (m = n \<and> c ap = Some me)"
| "of_event c (Interrupt ap n) (Sent me d ans) = (d = n \<and> c ap = Some me)"
| "of_event c (Read ap) (Taken aq n) = (aq = ap)"
| "of_event c _ _ = False"

definition act_step :: "(addr \<Rightarrow> nat option) \<Rightarrow> mailbox \<Rightarrow> event \<times> label \<Rightarrow> mailbox \<Rightarrow> bool" where
  "act_step c b a b' \<longleftrightarrow> of_event c (fst a) (snd a) \<and> mbox_step b (snd a) b'"

lemma act_runs: "runs (act_step c) b as b' \<Longrightarrow> runs mbox_step b (map snd as) b'"
  by (induction rule: runs.induct) (auto simp: act_step_def intro: runs.intros)

lemma acts_of_labels:
  assumes "runs mbox_step b ls b'" "\<forall>l \<in> set ls. of_event c e l"
  shows "runs (act_step c) b (map (Pair e) ls) b'"
  using assms by (induction rule: runs.induct) (auto simp: act_step_def intro: runs.intros)

lemma before_of_event: "\<forall>l \<in> set (before_labels s e). of_event c e l"
  by (cases e) (auto simp: before_labels_def)

lemma after_of_event:
  assumes "same_net s u"
  shows "of_event (client_of s) e (after_label s u e)"
proof (cases e)
  case (Send ap CID SID msg)
  have "client_of s = client_of u" using assms by (simp add: same_net_def)
  then show ?thesis using Send by (auto simp: after_label_def event_label_def client_of_def split: option.splits)
next
  case (Interrupt ap n)
  then show ?thesis
    by (auto simp: after_label_def event_label_def client_of_def Let_def split: option.splits)
next
  case (Read ap)
  then show ?thesis by (simp add: after_label_def event_label_def split: option.splits)
qed

section \<open>Operations in such worlds\<close>

text \<open>What a sleep may do to the state, as seen from the mailbox machine.\<close>

definition net_rel :: "fee_state \<Rightarrow> fee_state \<Rightarrow> bool" where
  "net_rel s t \<longleftrightarrow> (net_inv s \<longrightarrow> net_inv t \<and> same_net s t \<and>
     (\<exists>as. runs (act_step (client_of s)) (abs_mail s) as (abs_mail t)))"

definition tame :: "wait_env \<Rightarrow> bool" where
  "tame env \<longleftrightarrow> clock_runs env \<and> (\<forall>k d s. net_rel s (sleep env k d s))"

lemma net_rel_refl: "net_rel s s"
  using run_nil[of "act_step (client_of s)" "abs_mail s"] by (auto simp: net_rel_def)

lemma net_rel_trans:
  assumes "net_rel s t" "net_rel t u"
  shows "net_rel s u"
  unfolding net_rel_def
proof
  assume "net_inv s"
  then obtain as where t: "net_inv t" "same_net s t" "runs (act_step (client_of s)) (abs_mail s) as (abs_mail t)"
    using assms(1) by (auto simp: net_rel_def)
  moreover have "client_of t = client_of s" using t(2) by (simp add: same_net_def)
  ultimately obtain bs where "net_inv u" "same_net t u" "runs (act_step (client_of s)) (abs_mail t) bs (abs_mail u)"
    using assms(2) by (auto simp: net_rel_def)
  with same_net_trans[OF t(2)] runs_append[OF t(3)]
  show "net_inv u \<and> same_net s u \<and> (\<exists>as. runs (act_step (client_of s)) (abs_mail s) as (abs_mail u))" by blast
qed

interpretation overlap: net_world tame net_rel
proof unfold_locales
  show "net_rel s t \<Longrightarrow> net_rel t u \<Longrightarrow> net_rel s u" for s t u by (rule net_rel_trans)
qed (simp_all add: tame_def net_rel_refl, simp add: net_rel_def)

lemma tame_step:
  assumes "net_inv s" "tame env" "fee_step env s e t"
  shows "net_inv t \<and> same_net s t \<and> (\<exists>u as.
    runs (act_step (client_of s)) (abs_mail s) (map (Pair e) (before_labels s e) @ as) (abs_mail u) \<and>
    act_step (client_of s) (abs_mail u) (e, after_label s u e) (abs_mail t))"
proof -
  let ?act = "act_step (client_of s)"
  obtain v u where v: "net_inv v" "same_net s v" "runs mbox_step (abs_mail s) (before_labels s e) (abs_mail v)"
    and u: "net_rel v u" and t: "net_inv t" "same_net u t" "mbox_step (abs_mail u) (after_label s u e) (abs_mail t)"
    using overlap.step_in_world[OF assms] by blast
  have c: "client_of v = client_of s" using v(2) by (simp add: same_net_def)
  obtain as where as: "same_net v u" "runs ?act (abs_mail v) as (abs_mail u)"
    using u v(1) c by (auto simp: net_rel_def)
  have su: "same_net s u" by (rule same_net_trans[OF v(2) as(1)])
  have "runs ?act (abs_mail s) (map (Pair e) (before_labels s e) @ as) (abs_mail u)"
    by (rule runs_append[OF acts_of_labels[OF v(3) before_of_event] as(2)])
  moreover have "?act (abs_mail u) (e, after_label s u e) (abs_mail t)"
    using t(3) after_of_event[OF su] by (simp add: act_step_def)
  ultimately show ?thesis using t(1) same_net_trans[OF su t(2)] by blast
qed

lemma step_acts:
  assumes "net_inv s" "tame env" "fee_step env s e t"
  obtains as where "net_inv t" "same_net s t" "runs (act_step (client_of s)) (abs_mail s) as (abs_mail t)" "e \<in> fst ` set as"
proof -
  from tame_step[OF assms] obtain u as where "net_inv t" "same_net s t"
    "runs (act_step (client_of s)) (abs_mail s) (map (Pair e) (before_labels s e) @ as) (abs_mail u)"
    "act_step (client_of s) (abs_mail u) (e, after_label s u e) (abs_mail t)" by (elim exE conjE) (rule that)
  with runs_append[OF this(3) run_one[of "act_step (client_of s)"]] show thesis by (intro that) auto
qed

lemma concurrent_tame: "concurrent env \<Longrightarrow> tame env"
proof (induction rule: concurrent.induct)
  case (others env)
  have step: "net_rel s t" if "tame w" "fee_step w s e t" for w s e t
    unfolding net_rel_def using step_acts[OF _ that] by metis
  have "net_rel s t" if "runs (\<lambda>s e t. \<exists>w. (concurrent w \<and> tame w) \<and> fee_step w s e t) s es t" for s es t
    using that by (induction rule: runs.induct) (use step net_rel_refl net_rel_trans in blast)+
  then have "net_rel s (sleep env k d s)" for k d s using others.IH[of s k d] by (auto simp: net_rel_def)
  with others.hyps show ?case by (simp add: tame_def)
qed

section \<open>Runs of overlapping operations\<close>

lemma busy_runs:
  assumes "runs busy_step s es t" "net_inv s"
  shows "net_inv t \<and> same_net s t \<and>
    (\<exists>as. runs (act_step (client_of s)) (abs_mail s) as (abs_mail t) \<and> subseq es (map fst as))"
  using assms
proof (induction rule: runs.induct)
  case (run_nil s)
  then show ?case using runs.run_nil[of "act_step (client_of s)" "abs_mail s"] by auto
next
  case (run_cons s e t es u)
  let ?act = "act_step (client_of s)"
  obtain w where w: "concurrent w" "fee_step w s e t" using run_cons.hyps(1) by (auto simp: busy_step_def)
  obtain as where as: "net_inv t" "same_net s t" "runs ?act (abs_mail s) as (abs_mail t)" "e \<in> fst ` set as"
    by (rule step_acts[OF run_cons.prems concurrent_tame[OF w(1)] w(2)])
  have "client_of t = client_of s" using as(2) by (simp add: same_net_def)
  with run_cons.IH[OF as(1)] obtain bs where bs: "net_inv u" "same_net t u" "runs ?act (abs_mail t) bs (abs_mail u)"
    "subseq es (map fst bs)" by auto
  have "subseq ([e] @ es) (map fst as @ map fst bs)"
    by (rule list_emb_append_mono[OF _ bs(4)]) (use as(4) in \<open>simp add: subseq_singleton_left\<close>)
  with runs_append[OF as(3) bs(3)] bs(1) same_net_trans[OF as(2) bs(2)] show ?case
    by (intro conjI exI[of _ "as @ bs"]) simp_all
qed

section \<open>Properties\<close>

text \<open>A world in which client 3 takes the interrupt of client 5 and reads while a sender sleeps.\<close>

definition take_and_read :: "fee_state \<Rightarrow> fee_state" where
  "take_and_read s = (case adapters s 0xA000 of
     Some A \<Rightarrow>
       (case IRQ_private A of
          Some (p, es) \<Rightarrow>
            if 5 < length es
            then (case all_msix example_env (vector (es ! 5)) 0xA000 s of
                    Some (r, s1) \<Rightarrow>
                      (case adapters s1 0xA000 of
                         Some A1 \<Rightarrow> if incoming_slot A1 = NULL then s1
                           else (case FEE_release_incoming 0xA000 s1 of Some s2 \<Rightarrow> s2 | None \<Rightarrow> s1)
                       | None \<Rightarrow> s1)
                  | None \<Rightarrow> s)
            else s
        | None \<Rightarrow> s)
   | None \<Rightarrow> s)"

definition reader_env :: wait_env where
  "reader_env = example_env\<lparr>sleep := (\<lambda>k d. take_and_read)\<rparr>"

lemma take_and_read_runs: "\<exists>es. runs (fee_step example_env) s es (take_and_read s)"
proof (cases "\<exists>A p ent r s1. adapters s 0xA000 = Some A \<and> IRQ_private A = Some (p, ent) \<and> 5 < length ent \<and>
    all_msix example_env (vector (ent ! 5)) 0xA000 s = Some (r, s1)")
  case False
  then have "take_and_read s = s"
    by (auto simp: take_and_read_def split: option.splits prod.splits)
  then show ?thesis using run_nil[of "fee_step example_env" s] by auto
next
  case True
  then obtain A p ent r s1 where i: "adapters s 0xA000 = Some A" "IRQ_private A = Some (p, ent)" "5 < length ent"
    "all_msix example_env (vector (ent ! 5)) 0xA000 s = Some (r, s1)" by blast
  have e: "fee_step example_env s (Interrupt 0xA000 5) s1" by (rule fee_interrupt[OF i(1,2) _ i(3) _ i(4)]) simp_all
  consider "take_and_read s = s1" | A1 where "adapters s1 0xA000 = Some A1" "incoming_slot A1 \<noteq> NULL"
      "FEE_release_incoming 0xA000 s1 = Some (take_and_read s)"
    using i by (cases "adapters s1 0xA000"; cases "FEE_release_incoming 0xA000 s1"; cases "incoming_slot (the (adapters s1 0xA000)) = NULL")
      (auto simp: take_and_read_def split: if_splits)
  then show ?thesis
  proof cases
    case 1
    then show ?thesis using run_one[of "fee_step example_env", OF e] by auto
  next
    case 2
    show ?thesis by (rule exI, rule run_cons[OF e run_one[of "fee_step example_env", OF fee_read[OF 2]]])
  qed
qed

lemma reader_env_concurrent: "concurrent reader_env"
proof (rule others)
  show "clock_runs reader_env" unfolding clock_runs_def by (rule exI[of _ 4]) code_simp
next
  fix k d s
  assume "net_inv s"
  have *: "fee_step example_env s e t \<longrightarrow> (\<exists>w. concurrent w \<and> fee_step w s e t)" for s e t
    using still_concurrent[OF example_env_still] by blast
  obtain es where "runs (fee_step example_env) s es (take_and_read s)" using take_and_read_runs by blast
  from runs_mono[OF *, rule_format, OF this]
  show "\<exists>es. runs (\<lambda>s e t. \<exists>w. concurrent w \<and> fee_step w s e t) s es (sleep reader_env k d s)"
    by (auto simp: reader_env_def)
qed

lemma hello_net: "net_inv (peer_state ''hello'')"
  by (rule peer_state_net) simp

lemma take_and_read_peer:
  "net_inv (take_and_read (peer_state ''hello''))"
  "outbox (take_and_read (peer_state ''hello'')) = (outbox (peer_state ''hello''))(5 := None)"
proof -
  let ?s = "peer_state ''hello''" and ?ent = "irq_table irq_env 16"
  have A: "adapters ?s 0xA000 = Some irq_adapter" "IRQ_private irq_adapter = Some (0xC000, ?ent)" "5 < length ?ent"
    using irq_state_simps(6) by (simp_all add: peer_state_simps irq_state_simps example_irq_table(2))
  have k: "valid_id (glob ?s) 5" "link_kind (mail ?s (slot_off (glob ?s) 5)) = NotLink"
    unfolding peer_state_simps inbox_state_simps by code_simp+
  from deliver_read[OF hello_net A k, of example_env] obtain u v where
    u: "fee_step example_env ?s (Interrupt 0xA000 5) u" and v: "fee_step example_env u (Read 0xA000) v"
    and o: "net_inv v" "outbox v = (outbox ?s)(5 := None)" by auto
  have "take_and_read ?s = v"
    using u v A by (auto simp: take_and_read_def elim!: fee_interruptE fee_readE)
  with o show "net_inv (take_and_read ?s)" "outbox (take_and_read ?s) = (outbox ?s)(5 := None)" by simp_all
qed

text \<open>Client 5 sends while its slot is taken; client 3 reads during the first sleep, so the message goes out.\<close>

lemma reader_send:
  "\<exists>t. fee_step reader_env (peer_state ''hello'') (Send 0xB000 300 27 ''again'') t \<and>
     outbox (peer_state ''hello'') 5 = Some (3, ''hello'') \<and> outbox t 5 = Some (3, ''again'')"
proof -
  let ?s = "peer_state ''hello''" and ?T = "jiffies reader_env 0 + PRIOR_RESP_WAIT reader_env" and ?len = "5 :: uint64"
  define s1 where "s1 = take_and_read ?s"
  note i = hello_net and env = concurrent_tame[OF reader_env_concurrent]
  have A: "adapters ?s 0xB000 = Some peer_adapter" "unat (my_id peer_adapter) = 5"
    by (simp_all add: peer_state_simps peer_adapter_facts)
  have e: "send_error example_globals 300 27 5 = None" "unat (dest_peer 300 27) = 3" by code_simp+
  have full: "outbox ?s 5 = Some (3, ''hello'')" using irq_state_label(2) by (simp add: peer_state_def)
  have sl: "slept reader_env 0 ?s = ?s" "slept reader_env 1 ?s = s1" by (simp_all add: s1_def reader_env_def)
  have t: "time_before (look reader_env 0) ?T" by code_simp
  have w: "wait_hw_ready reader_env 0xB000 ?T 0 1 0 ?s = Some (look reader_env 1, s1)"
    using overlap.waits.wait_polls[OF env i A(1), of 1 ?T] sl t full take_and_read_peer(2) by (simp add: A(2) s1_def)
  have s1: "fee_inv s1" "keeps_adapter 0xB000 ?s s1"
    using overlap.waits.slept_keeps[OF env i, of 1] net_invD(1) unfolding sl(2) by auto
  have n: "unat ?len = 5" "length ''again'' = 5" "outbox s1 5 = None" by (simp_all add: s1_def take_and_read_peer(2))
  obtain t where "FEE_create_outgoing reader_env 300 27 ''again'' ?len 0xB000 ?s = Some (s32 (uint ?len), t)"
    and t: "outbox t 5 = Some (3, ''again'')"
    by (rule create_outgoing_waited[OF net_invD(1)[OF i] A(1) _ _ w s1, of 300 27 ?len "''again''"])
      (use e A(2) n in \<open>simp_all add: peer_state_simps(2)\<close>)
  then have "fee_step reader_env ?s (Send 0xB000 300 27 ''again'') t" by (intro fee_send[OF A(1)]) (simp_all add: n)
  with t full show ?thesis by blast
qed









end
