(* ===== verification/Kuns.thy ===== *)
theory Kuns
  imports C_String
begin

text \<open>
  The monitor of the kernel's uevent socket, \<open>netlink/kuns.c\<close>. The answers of \<open>socket\<close>, \<open>bind\<close>, \<open>poll\<close> and \<open>recv\<close>
  are inputs; the result is what the program prints and the message it dies with, if it does. The lemmas show
  that the loop over the strings of a datagram ends, stays inside the buffer, and prints the strings it should.
\<close>

section \<open>The program\<close>

text \<open>The size of \<open>buf\<close>.\<close>

definition bufsize :: nat where "bufsize = 4096"

text \<open>The inner loop from offset \<open>start\<close>: the lines it prints. A string that does not end inside the buffer would be
  read past it, which is the value None.\<close>

function print_strings :: "bytes \<Rightarrow> nat \<Rightarrow> nat \<Rightarrow> string list option" where
  "print_strings b start eobuf =
     (if start < eobuf
      then if \<not> terminated (drop start b) then None
        else do {
          let s = drop start b;
          rest \<leftarrow> print_strings b (start + length (cstr s) + 1) eobuf;
          Some ((if STREQ s ''libudev'' \<or> strchr s (CHR ''='') \<noteq> None then [cstr s] else []) @ rest)
        }
      else Some [])"
  by pat_completeness auto

termination by (relation "measure (\<lambda>(b, start, eobuf). eobuf - start)") auto

declare print_strings.simps [simp del]

text \<open>One wakeup: what \<open>poll\<close> returned and the datagram that waits, None when \<open>recv\<close> fails. \<open>recv\<close> keeps what fits
  the length it is given, the buffer less one byte.\<close>

type_synonym wakeup = "int \<times> bytes option"

text \<open>The loop, for the wakeups that have come so far: the lines printed, and the argument of \<open>die\<close>.\<close>

fun poll_loop :: "wakeup list \<Rightarrow> (string list \<times> string option) option" where
  "poll_loop [] = Some ([], None)"
| "poll_loop ((ret, dgram) # ws) =
     (if ret = - 1 then Some ([], Some ''poll'')
      else if ret = 0 then Some ([], Some ''timeout'')
      else case dgram of
        None \<Rightarrow> Some ([], Some ''recv'')
      | Some d \<Rightarrow> do {
          let got = take (bufsize - 1) d;
          out \<leftarrow> print_strings (got @ replicate (bufsize - length got) NUL) 0 (length got);
          (outs, e) \<leftarrow> poll_loop ws;
          Some (out @ outs, e)
        })"

definition kuns_main :: "int \<Rightarrow> int \<Rightarrow> wakeup list \<Rightarrow> (string list \<times> string option) option" where
  "kuns_main sock bound ws =
     (if sock = - 1 then Some ([], Some ''socket()'')
      else if bound \<noteq> 0 then Some ([], Some ''bind()'')
      else poll_loop ws)"

section \<open>Reference\<close>

text \<open>The strings of a datagram, each ended by a NUL or by the end of the data, and the ones to report.\<close>

fun split_nul :: "bytes \<Rightarrow> string list" where
  "split_nul [] = []"
| "split_nul (c # cs) =
     (if c = NUL then [] # split_nul cs
      else case split_nul cs of [] \<Rightarrow> [[c]] | s # ss \<Rightarrow> (c # s) # ss)"

definition reported :: "string \<Rightarrow> bool" where
  "reported s \<longleftrightarrow> s = ''libudev'' \<or> CHR ''='' \<in> set s"

text \<open>How the kernel lays out the strings of an event.\<close>

definition join_nul :: "string list \<Rightarrow> bytes" where
  "join_nul ss = concat (map (\<lambda>s. s @ [NUL]) ss)"

text \<open>The wakeups the loop works off, the lines one of them gives, and what it dies of.\<close>

fun served :: "wakeup \<Rightarrow> bool" where
  "served (ret, dgram) \<longleftrightarrow> ret \<noteq> - 1 \<and> ret \<noteq> 0 \<and> dgram \<noteq> None"

fun lines_of :: "wakeup \<Rightarrow> string list" where
  "lines_of (ret, dgram) = filter reported (split_nul (take (bufsize - 1) (the dgram)))"

fun death :: "wakeup \<Rightarrow> string" where
  "death (ret, dgram) = (if ret = - 1 then ''poll'' else if ret = 0 then ''timeout'' else ''recv'')"

section \<open>Lemmas\<close>

lemma split_nul_cstr: "d \<noteq> [] \<Longrightarrow> split_nul d = cstr d # split_nul (drop (Suc (length (cstr d))) d)"
proof (induction d)
  case (Cons c cs)
  then show ?case by (cases cs) (auto simp: cstr_Cons)
qed simp

lemma print_strings_split:
  "print_strings (d @ NUL # r) start (length d) = Some (filter reported (split_nul (drop start d)))"
proof (induction "length d - start" arbitrary: start rule: less_induct)
  case less
  show ?case
  proof (cases "start < length d")
    case True
    let ?s = "drop start d"
    have c: "drop start (d @ NUL # r) = ?s @ NUL # r" using True by simp
    have "length d - (start + length (cstr ?s) + 1) < length d - start" using True by simp
    note IH = less.hyps[OF this]
    have next': "drop (start + length (cstr ?s) + 1) d = drop (Suc (length (cstr ?s))) ?s"
      by (simp add: add.commute)
    have rep: "STREQ (?s @ NUL # r) ''libudev'' \<or> strchr (?s @ NUL # r) (CHR ''='') \<noteq> None \<longleftrightarrow> reported (cstr ?s)"
      by (auto simp: STREQ_def cstr_padded strchr_None_notin reported_def)
    have "split_nul ?s = cstr ?s # split_nul (drop (Suc (length (cstr ?s))) ?s)"
      using True by (intro split_nul_cstr) simp
    then show ?thesis
      using True IH unfolding next'
      by (subst print_strings.simps) (simp add: c cstr_padded terminated_def Let_def, use rep in auto)
  next
    case False
    then show ?thesis by (subst print_strings.simps) simp
  qed
qed

lemma datagram_lines:
  "print_strings (take (bufsize - 1) d @ replicate (bufsize - length (take (bufsize - 1) d)) NUL) 0
     (length (take (bufsize - 1) d)) = Some (filter reported (split_nul (take (bufsize - 1) d)))"
proof -
  have "bufsize - length (take (bufsize - 1) d) = Suc (bufsize - 1 - length (take (bufsize - 1) d))"
    by (simp add: bufsize_def)
  then show ?thesis using print_strings_split[of "take (bufsize - 1) d" _ 0] by simp
qed

lemma split_join: "\<forall>s \<in> set ss. NUL \<notin> set s \<Longrightarrow> split_nul (join_nul ss) = ss"
proof (induction ss)
  case (Cons s ss)
  then have "join_nul (s # ss) = s @ NUL # join_nul ss" by (simp add: join_nul_def)
  then show ?case using Cons split_nul_cstr[of "s @ NUL # join_nul ss"] by simp
qed (simp add: join_nul_def)

lemma poll_loop_lines:
  "poll_loop ws = Some (concat (map lines_of (takeWhile served ws)),
     map_option death (find (\<lambda>w. \<not> served w) ws))"
proof (induction ws)
  case (Cons w ws)
  obtain ret dgram where w: "w = (ret, dgram)" by (cases w)
  show ?case
  proof (cases "served w")
    case True
    then obtain d where "dgram = Some d" using w by auto
    then show ?thesis using True Cons w datagram_lines[of d] by (simp add: Let_def)
  next
    case False
    then show ?thesis using w by (auto split: option.splits)
  qed
qed simp

section \<open>Properties\<close>

text \<open>C28: the monitor works off every wakeup. Whatever the datagrams hold, the loop over the strings of one ends without reading
  past the buffer; the lines printed are, in order, the strings of each datagram (of its first 4095 bytes) that are
  \<open>libudev\<close> or contain an equals sign; and the program ends exactly at the first failed or empty \<open>poll\<close> or failed
  \<open>recv\<close>, with the message of that call.\<close>

theorem kuns_outcome:
  "kuns_main sock bound ws =
     (if sock = - 1 then Some ([], Some ''socket()'')
      else if bound \<noteq> 0 then Some ([], Some ''bind()'')
      else Some (concat (map lines_of (takeWhile served ws)), map_option death (find (\<lambda>w. \<not> served w) ws)))"
  by (simp add: kuns_main_def poll_loop_lines)

text \<open>what the kernel sends is what is printed: a datagram laid out as NUL-terminated strings that fits the buffer
  gives back exactly the strings to report.\<close>

lemma kuns_roundtrip:
  assumes "\<forall>s \<in> set ss. NUL \<notin> set s" "length (join_nul ss) < 4096" "sock \<noteq> - 1" "ret \<noteq> - 1" "ret \<noteq> 0"
  shows "kuns_main sock 0 [(ret, Some (join_nul ss))] = Some (filter reported ss, None)"
proof -
  have "take (bufsize - 1) (join_nul ss) = join_nul ss" using assms(2) by (simp add: bufsize_def)
  then show ?thesis using assms(3-5) split_join[OF assms(1)] by (simp add: kuns_main_def poll_loop_lines)
qed

lemma kuns_roundtrip_witness:
  "kuns_main 3 0 [(1, Some (join_nul [''add@/devices/genz'', ''ACTION=add'', '''', ''SEQNUM=7'']))] =
     Some ([''ACTION=add'', ''SEQNUM=7''], None)"
proof -
  let ?ss = "[''add@/devices/genz'', ''ACTION=add'', '''', ''SEQNUM=7'']"
  have "\<forall>s \<in> set ?ss. NUL \<notin> set s" "length (join_nul ?ss) < 4096" by (simp_all add: join_nul_def)
  from kuns_roundtrip[OF this, of 3 1] show ?thesis by (simp add: reported_def)
qed

end
