(* ===== verification/Spec2Isabelle.thy ===== *)
theory Spec2Isabelle
  imports Fee_Concurrent Kuns
begin

text \<open>
  Verification of the EmerGen-Z drivers.

  \<^bold>\<open>The program.\<close> EmerGen-Z emulates a Gen-Z fabric on the inter-VM shared memory of QEMU. Three kernel modules and
  a user-space monitor make it up.
  \<^item> The subsystem module (\<open>src/subsystem\<close>): component classes, buses found by PCI slot number, core structures, and
    character devices with their sysfs files.
  \<^item> The FEE shim (\<open>src/shim_bridge/fee_*.c\<close>): one adapter per IVSHMEM device, a shared mailbox with a slot per client,
    doorbell interrupts, a link layer that answers in the interrupt handler, and the registration of drivers.
  \<^item> The bridge driver (\<open>src/shim_bridge/gf_bridge.c\<close>): the character device with which users send and receive messages.
  \<^item> The monitor \<open>src/netlink/kuns.c\<close>, which prints the kernel's uevents.

  A message goes from \<open>gf_bridge_write\<close> through \<open>FEE_create_outgoing\<close> into the sender's own mailbox slot, rings the
  doorbell of the addressee, whose \<open>all_msix\<close> finds the slot, gives link messages to \<open>FEE_link_request\<close> and leaves others
  for \<open>gf_bridge_read\<close>, which copies the text and frees the slot with \<open>FEE_release_incoming\<close>.

  \<^bold>\<open>The theories\<close>, in the order of the imports.
  \<^item> \<open>Genz_Prelude\<close>: machine integers (words, and \<open>s32\<close> for a conversion to \<open>int\<close>), error numbers, and the ledger of kernel
    resources: every acquisition and release is recorded, a release of something not held goes to \<open>bad\<close>.
  \<^item> \<open>C_String\<close>: byte arrays, the string functions, \<open>snprintf\<close>, \<open>sscanf\<close> and \<open>kstrtoint\<close>; a store out of bounds is None.
  \<^item> \<open>Genz_Class\<close>, \<open>Genz_Bus\<close>, \<open>Genz_Device\<close>: the subsystem module. The state is a record extended from theory to theory
    (\<open>kernel\<close>, \<open>bus_state\<close>, \<open>genz_state\<close>, \<open>fee_state\<close>), so an operation of a lower layer applies unchanged above it.
  \<^item> \<open>Fee_Mailbox\<close>: the structures of \<open>fee.h\<close> and \<open>calculate_mailslot\<close>; \<open>Fee_IVSHMSG\<close>: send, await, release, and the invariant
    \<open>fee_inv\<close> of mailbox and adapters; \<open>Fee_Link\<close>: \<open>fee_link.c\<close>; \<open>Fee_MSIX\<close>: \<open>fee_MSI-X.c\<close>; \<open>Fee_Adapter\<close>: \<open>fee_adapter.c\<close>;
    \<open>Fee_PCI\<close>: \<open>fee_pci.c\<close>; \<open>Fee_Register\<close>: \<open>fee_register.c\<close>; \<open>GF_Bridge\<close>: \<open>gf_bridge.c\<close>.
  \<^item> \<open>Fee_Protocol\<close>: sends, interrupts and reads of any number of adapters as a transition system, the abstract
    mailbox machine it refines when operations run one at a time, and the locale \<open>net_world\<close> in which the effect of every
    operation is proved for any world it may sleep in; \<open>Fee_Concurrent\<close>: the worlds in which other operations run during
    a sleep, and themselves sleep (\<open>concurrent\<close>), and the refinement for these.
  \<^item> \<open>Kuns\<close>: \<open>kuns.c\<close>.
  \<^item> This theory: the path of a message from one user to another.

  \<^bold>\<open>How the code is modelled.\<close> Functions keep their names; each takes the state and returns its result with the new state, or
  None where the code would dereference a bad pointer, hit \<open>BUG_ON\<close>, write out of bounds, or take a spinlock it holds. Pointers
  are 64-bit addresses, heap objects live in maps from addresses, and an \<open>ERR_PTR\<close> is the left side of a sum. Labels reached by
  \<open>goto\<close> are definitions of their own (\<open>err_MSIX_teardown\<close>, \<open>unlock_return\<close>, \<open>register_up_and_out\<close>). What the kernel answers
  (allocations, registrations, user copies, the clock) is a parameter: a record of answers per function, and the locales
  \<open>int_parser\<close> and \<open>user_copy\<close> for \<open>kstrtoint\<close> and the user copies. What other machines do to the shared memory while a
  sender sleeps is the parameter \<open>sleep\<close>, restricted by \<open>benign\<close> to what the protocol allows; the locale \<open>wait_world\<close> gives that the wait
  loop ends and at which look, the locales \<open>wait_relation\<close> and \<open>world_relation\<close> carry what such a world keeps through the loop
  and a whole send.

  \<^bold>\<open>What the lemmas show.\<close>
  \<^item> Protocol: every driver operation is a step of the mailbox machine, or a run of it when others act during its sleeps; no
    interleaving gets stuck, a message stays until taken, none is overwritten, a blocked sender can go on.
  \<^item> Operations: the exact result of every branch of send, await, release, read, write, open, flush and release, the
    interrupt handler and the link handler; the write parser equals a split of the text; numbers survive printing and scanning.
  \<^item> Life cycles: probe and remove, create and destroy, register and unregister, init and exit, against the ledger; for several
    error exits, precisely what is lost, freed twice or left dangling.
  \<^item> Tables and bounds: slots are disjoint and inside the mailbox, minors, class tables, buffer sizes.

  \<^bold>\<open>Loops and bounds.\<close> The wait loop of a send (\<open>wait_hw_ready\<close>) is partial; that it returns is proved from a clock that reaches the
  timeout (\<open>clock_runs\<close>). All other loops are total by a measure or by recursion on a list. There is no fuel.

  \<^bold>\<open>Not modelled.\<close> Messages to the kernel log; module parameters other than \<open>onlySlot\<close>; the uevent and netlink scripts in Python;
  \<open>drivers.base.base.h\<close>, a copy of a kernel header; \<open>genz_routing_fabric.h\<close> and the structures of \<open>genz_control.h\<close> that no code uses.
  Operations overlap in \<open>Fee_Concurrent\<close> where the code sleeps; between two sleeps an operation is not interrupted. Two places
  where the code does not enforce that are stated on their own: an interrupt inside \<open>FEE_release_incoming\<close> (\<open>Fee_MSIX\<close>) and a
  second send between the last look and the stores of a first one (\<open>Fee_IVSHMSG\<close>). Adapters are not created or removed during
  a run of the protocol.
\<close>

section \<open>From one user to another\<close>

text \<open>What the link layer takes a text for: it looks at the length and at the string only.\<close>

definition text_kind :: "bytes \<Rightarrow> link_msg" where
  "text_kind body = link_kind ((blank_slot 0)\<lparr>buflen := of_nat (length body), buf := body\<rparr>)"

lemma link_kind_text:
  assumes "buflen m = of_nat (length body)" "buf m = body @ NUL # r"
  shows "link_kind m = text_kind body"
  using assms by (simp add: text_kind_def link_kind_def STREQ_N_def cstr_padded)

lemma message_length:
  assumes "message kst srv data = Inr (CID, SID, body)"
  shows "length body \<le> length data"
proof -
  have "CHR '':'' \<in> set (cstr data)" using assms by (auto simp: message_def split: if_splits)
  then obtain h bd where d: "data = h @ CHR '':'' # bd" "CHR '':'' \<notin> set h" "NUL \<notin> set h" by (rule cstr_member)
  then show ?thesis using assms message_colon[OF d, of kst srv] by (auto split: sum.splits)
qed

text \<open>What the reader sees of a message of client \<open>n\<close>.\<close>

definition received :: "nat \<Rightarrow> bytes \<Rightarrow> bytes" where
  "received n body = show_nat (100 * n) @ '','' @ show_nat 27 @ '':'' @ body"

lemma delivered_mail:
  "mail (delivered ap A n s) (slot_off (glob s) n) =
    (mail s (slot_off (glob s) n))\<lparr>peer_SID := 27, peer_CID := of_nat n * 100\<rparr>"
  by (simp add: delivered_def wr_adapter_def annotated_def)

lemma delivered_text:
  assumes "n < 2 ^ 16" "buflen m = of_nat (length body)" "length body < 2 ^ 64" "buf m = body @ NUL # r"
  shows "read_text (m\<lparr>peer_SID := 27, peer_CID := of_nat n * 100\<rparr>) = received n body"
    and "length (sender_field (m\<lparr>peer_SID := 27, peer_CID := of_nat n * 100\<rparr>)) \<le> 30"
    and "length (received n body) \<le> 30 + length body"
proof -
  have c: "unat (of_nat n * 100 :: uint64) = 100 * n" using assms(1) by (simp add: unat_word_ariths unat_of_nat)
  have b: "unat (of_nat (length body) :: uint64) = length body" using assms(3) by (simp add: unat_of_nat)
  show "read_text (m\<lparr>peer_SID := 27, peer_CID := of_nat n * 100\<rparr>) = received n body"
    using assms(2,4) b c by (simp add: read_text_def received_def sender_field_parts)
  have l: "length (show_nat (100 * n)) \<le> 20" "length (show_nat 27) = 2"
    using length_show_u64[of "of_nat n * 100"] unfolding c by (assumption, code_simp)
  then show "length (sender_field (m\<lparr>peer_SID := 27, peer_CID := of_nat n * 100\<rparr>)) \<le> 30"
    using c by (simp add: sender_field_parts)
  show "length (received n body) \<le> 30 + length body" using l by (simp add: received_def)
qed

text \<open>C3: a text written to one bridge device is read from another. With a free slot at the sender and
  a legal \<open>CID,SID:body\<close> for the receiver's id, the write returns its full length and rings the receiver's doorbell;
  the interrupt of that doorbell points the receiver at the sender's slot; and the next read of the receiver
  hands out the sender's CID and SID, a colon and exactly the body, and frees the slot: the mailbox is as it
  was before.\<close>

theorem message_end_to_end:
  assumes "user_copy ctu cfu" "fee_inv s" "bridge_opened s (private_data f1) A1 B1"
    and "adapters s (private_data f2) = Some A2" "private_data f1 \<noteq> private_data f2" "\<not> incoming_slot_lock A2"
    and "IRQ_private A2 = Some (p, es)" "irq_table_ok (glob s) es" "unat (my_id A1) < unat (nEvents (glob s))"
    and "outbox s (unat (my_id A1)) = None" "payload_size (glob s) \<le> 2 ^ 30"
    and "unat len \<le> length u" "Suc (unat len) < payload_size (glob s)"
    and "message kst (s32 (uint (server_id (glob s)))) (take (unat len) u) = Inr (CID, SID, body)"
    and "send_error (glob s) CID SID (of_nat (length body)) = None" "ucast (dest_peer CID SID) = my_id A2"
    and "text_kind body = NotLink"
    and "length (received (unat (my_id A1)) body) \<le> unat len'" "length (received (unat (my_id A1)) body) \<le> length u'"
  shows "\<exists>s1 s2 s3.
    gf_bridge_write cfu kst env f1 u len s = Some (int (unat len), s1) \<and>
    doorbells s1 = doorbells s @ [(private_data f1, ringer (my_id A2) (my_id A1))] \<and>
    all_msix env' (vector (es ! unat (my_id A1))) (private_data f2) s1 = Some (IRQ_HANDLED, s2) \<and>
    gf_bridge_read ctu wait_event f2 u' len' s2 =
      Some (int (length (received (unat (my_id A1)) body)),
            received (unat (my_id A1)) body @ drop (length (received (unat (my_id A1)) body)) u', f2\<lparr>f_pos := 0\<rparr>, s3) \<and>
    fee_inv s3 \<and> outbox s3 = outbox s"
proof -
  let ?n = "unat (my_id A1)" and ?ap = "private_data f2"
  have p31: "payload_size (glob s) \<le> 2 ^ 31" using assms(11) by simp
  obtain s1 m r where w: "gf_bridge_write cfu kst env f1 u len s = Some (int (unat len), s1)" "fee_inv s1"
    "outbox s1 = (outbox s)(?n \<mapsto> (unat (dest_peer CID SID), body))"
    "doorbells s1 = doorbells s @ [(private_data f1, ringer (ucast (dest_peer CID SID)) (my_id A1))]"
    "glob s1 = glob s" "\<forall>ap. ap \<noteq> private_data f1 \<longrightarrow> adapters s1 ap = adapters s ap"
    "mail s1 = (mail s)(slot_off (glob s) ?n := m)" "buflen m = of_nat (length body)" and r: "buf m = body @ NUL # r"
    using write_idle[OF assms(1-3,10,12,13) p31 assms(14,15), where env = env] by (elim exE conjE) (rule that)
  have A1: "adapters s (private_data f1) = Some A1" using assms(3) by (simp add: bridge_opened_def)
  have v: "valid_id (glob s1) ?n" using fee_inv_adapter[OF assms(2) A1] w(5) by (simp add: adapter_ok_def)
  have n: "1 \<le> ?n" "?n < unat (nEvents (glob s1))" "?n < 2 ^ 16"
    using valid_id_pos[OF fee_inv_globals[OF w(2)] v] assms(9) w(5) unsigned_less[of "my_id A1"] by simp_all
  have A2: "adapters s1 ?ap = Some A2" using w(6) assms(4,5) by simp
  have es: "irq_table_ok (glob s1) es" using assms(8) w(5) by simp
  have m: "mail s1 (slot_off (glob s1) ?n) = m" using w(5,7) by simp
  define s2 where "s2 = delivered ?ap A2 ?n s1"
  have irq: "all_msix env' (vector (es ! ?n)) ?ap s1 = Some (IRQ_HANDLED, s2)"
    unfolding s2_def by (rule all_msix_delivers[OF w(2) A2 assms(6,7) es n v])
      (simp add: m link_kind_text[OF w(8) r] assms(17))
  let ?A = "A2\<lparr>incoming_slot := globals A2 + slot_off (glob s1) ?n\<rparr>"
  have s2: "fee_inv s2" "adapters s2 ?ap = Some ?A" "glob s2 = glob s1" "outbox s2 = outbox s1"
    using delivered_inv[OF w(2) A2 v] delivered_outbox[OF fee_inv_globals[OF w(2)] v] by (simp_all add: s2_def)
  let ?m = "m\<lparr>peer_SID := 27, peer_CID := of_nat ?n * 100\<rparr>"
  have m2: "mail s2 (slot_off (glob s2) ?n) = ?m" using delivered_mail[of ?ap A2 ?n s1] m s2(3) by (simp add: s2_def)
  have b: "length body < payload_size (glob s)"
    using send_error_None(1,2)[OF assms(15)] message_length[OF assms(14)] assms(13) by (simp add: order_le_less_trans)
  then have "length body < 2 ^ 64" using assms(11) by simp
  note tx = delivered_text[OF n(3) w(8) this r]
  have v2: "valid_id (glob s2) ?n" using v s2(3) by simp
  note sz = slot_sizes[OF s2(1) v2, unfolded m2]
  let ?t = "received ?n body"
  have l: "s32 (int (length ?t)) = int (length ?t)" "0 < length ?t"
    using tx(3) b assms(11) by (simp_all add: s32_nonneg_id) (simp add: received_def)
  obtain v' where v': "read_copy ctu ?m u' len' = Some (int (length ?t), v')" "v' = ?t @ drop (length ?t) u'"
    using user_copy.read_copy_fits[OF assms(1) sz(1) tx(2) sz(2), of len' u'] assms(18,19) unfolding tx(1) l(1) by auto
  have "gf_bridge_read ctu wait_event f2 u' len' s2 = Some (int (length ?t), v',
      if int (length ?t) > 0 then f2\<lparr>f_pos := 0\<rparr> else f2, released ?ap ?A ?n s2)"
    by (rule read_waiting[OF s2(1,2)]) (use assms(6) v2 s2(3) m2 v'(1) in simp_all)
  moreover have "fee_inv (released ?ap ?A ?n s2)" by (rule released_inv[OF s2(1,2) v2])
  moreover have "outbox (released ?ap ?A ?n s2) = outbox s"
    using released_outbox[OF fee_inv_globals[OF s2(1)] v2] s2(4) w(3) assms(10) by (simp add: fun_upd_idem)
  ultimately show ?thesis using w(1,4) irq v'(2) l(2) assms(16) by auto
qed

text \<open>Two adapters: client 3, open for writing, and client 5 with its interrupts.\<close>

definition pair_state :: fee_state where
  "pair_state = wr_adapter 0xB000 peer_adapter open_state"

lemma pair_state_simps:
  "adapters pair_state = [0xA000 \<mapsto> open_adapter, 0xB000 \<mapsto> peer_adapter]" "glob pair_state = example_globals"
  "outbox pair_state = outbox open_state" "doorbells pair_state = []" 
  by (simp_all add: pair_state_def open_state_simps) (simp_all add: wr_adapter_def open_state_def example_state_def)

lemma pair_state_inv: "fee_inv pair_state"
  unfolding pair_state_def
  by (rule fee_inv_adapter_upd[OF open_state_inv]) (simp_all add: open_state_simps peer_adapter_facts)

theorem message_end_to_end_witness:
  "\<exists>s1 s2 s3. gf_bridge_write copy_from_user0 kstrtoint0 (\<lambda>_. example_env) example_file ''500,27:hello'' 12 pair_state =
      Some (12, s1) \<and> doorbells s1 = [(0xA000, ringer 5 3)] \<and>
    all_msix example_env 43 0xB000 s1 = Some (IRQ_HANDLED, s2) \<and>
    gf_bridge_read copy_to_user0 (\<lambda>s. (0, s)) (example_file\<lparr>private_data := 0xB000\<rparr>) (replicate 20 CHR ''.'') 20 s2 =
      Some (12, ''300,27:hello........'', example_file\<lparr>private_data := 0xB000, f_pos := 0\<rparr>, s3) \<and>
    outbox s3 = outbox pair_state"
proof -
  let ?f2 = "example_file\<lparr>private_data := 0xB000\<rparr>"
  have o: "bridge_opened pair_state (private_data example_file) open_adapter open_buffers"
    using open_state_opened by (simp add: bridge_opened_def pair_state_simps open_state_simps)
  have m: "message kstrtoint0 (s32 15) ''500,27:hello'' = Inr (500, 27, ''hello'')"
    by (simp add: message_def destination_def split_at_def cstr_def example_numbers)
  have e: "send_error example_globals 500 27 5 = None" "replicate 8 CHR ''.'' = ''........''" "ucast (dest_peer 500 27) = (5 :: uint16)"
    "text_kind ''hello'' = NotLink" "received 3 ''hello'' = ''300,27:hello''" by code_simp+
  have v: "vector (irq_table irq_env 16 ! 3) = 43" by code_simp
  show ?thesis
    using message_end_to_end[OF cu.user_copy_axioms pair_state_inv o, where ?f2.0 = ?f2 and ?A2.0 = peer_adapter and
        p = "0xC000" and es = "irq_table irq_env 16" and kst = kstrtoint0 and u = "''500,27:hello''" and len = 12 and
        CID = 500 and SID = 27 and body = "''hello''" and u' = "replicate 20 CHR ''.''" and len' = 20 and
        env = "\<lambda>_. example_env" and env' = example_env and wait_event = "\<lambda>s. (0, s)"]
    by (auto simp: pair_state_simps open_state_simps peer_adapter_facts m e v example_irq_table(1) irq_state_simps(10))
qed

end
